theory Spec2Isabelle
  imports Main "HOL-Library.Multiset"
begin

section \<open>The game rules library (ass3/lib/game.h, ass3/lib/game.c)\<close>

text \<open>
  C \<open>int\<close> values are modelled as \<open>int\<close>: player ids, card ids, counters, token
  counts, prices and points. The array indices of the colour loops run over the
  constants \<open>0 .. NUM_COLOURS - 1\<close> and \<open>0 .. TOKEN_SLOTS - 1\<close> and are \<open>nat\<close>.
  C arrays are lists; an \<open>int\<close> subscript \<open>a[i]\<close> is \<open>a ! nat i\<close>.
  Signed overflow is undefined in C; the model describes the executions without it.
\<close>

subsection \<open>Constants and types of game.h\<close>

definition MAX_PLAYERS :: int where "MAX_PLAYERS = 26"
definition NUM_COLOURS :: nat where "NUM_COLOURS = 4"
definition TOKEN_SLOTS :: nat where "TOKEN_SLOTS = 5"
definition TOKENS_PER_TAKE :: int where "TOKENS_PER_TAKE = 3"
definition WILD :: nat where "WILD = 4"

datatype CardColour = PURPLE | BROWN | YELLOW | RED | INVALID_COLOUR

text \<open>The integer value of an enumerator, used when a colour subscripts an array.\<close>

fun colour_index :: "CardColour \<Rightarrow> nat" where
  "colour_index PURPLE = 0"
| "colour_index BROWN = 1"
| "colour_index YELLOW = 2"
| "colour_index RED = 3"
| "colour_index INVALID_COLOUR = 4"

text \<open>\<open>Card\<close>: the field \<open>value\<close> of the source is \<open>cardValue\<close> here (\<open>value\<close> is
  reserved in Isabelle).\<close>

record Card =
  discount :: CardColour
  cardValue :: int
  price :: "int list"

text \<open>\<open>Player\<close>: the hub's stream handles and process id (\<open>in\<close>, \<open>out\<close>, \<open>pid\<close>)
  are left out; no function modelled here reads or writes them.\<close>

record Player =
  totalPoints :: int
  discounts :: "int list"
  tokens :: "int list"

text \<open>\<open>Game\<close>: \<open>cards\<close> is the array of \<open>MAX_CARDS_ON_BOARD\<close> slots, of which the
  first \<open>cardsFacedUp\<close> are face up. The hub's deck pointer \<open>topOfDeck\<close> is left out.\<close>

record Game =
  myId :: int
  maxPoints :: int
  numPlayers :: int
  tokens :: "int list"
  cardsFacedUp :: int
  cards :: "Card list"
  players :: "Player list"

subsection \<open>Setting up a game\<close>






subsection \<open>Removing a card from the board\<close>

text \<open>The loop of \<open>take_card_from_board\<close>: \<open>i\<close> runs from \<open>cardId\<close> while
  \<open>i < cardsFacedUp\<close>, and slot \<open>i\<close> receives slot \<open>i + 1\<close> when that one is face up.\<close>

function shift_cards :: "Card list \<Rightarrow> int \<Rightarrow> int \<Rightarrow> Card list" where
  "shift_cards cs i n =
     (if i < n
      then shift_cards (if i + 1 < n then cs[nat i := cs ! nat (i + 1)] else cs) (i + 1) n
      else cs)"
  by pat_completeness auto
termination
  by (relation "measure (\<lambda>(cs, i, n). nat (n - i))") auto

declare shift_cards.simps [simp del]

definition take_card_from_board :: "Game \<Rightarrow> int \<Rightarrow> Game" where
  "take_card_from_board game cardId =
     game\<lparr>cards := shift_cards (cards game) cardId (cardsFacedUp game),
          cardsFacedUp := cardsFacedUp game - 1\<rparr>"

subsection \<open>Affording and paying for a card\<close>

text \<open>\<open>tokensNeeded\<close> of the colour loops: the price less the discount, made
  non-negative.\<close>

definition tokens_needed :: "Card \<Rightarrow> Player \<Rightarrow> nat \<Rightarrow> int" where
  "tokens_needed crd player i =
     (let tokensNeeded = price crd ! i - Player.discounts player ! i
      in if tokensNeeded < 0 then 0 else tokensNeeded)"



text \<open>The loop of \<open>choose_tokens_to_buy_card\<close>, writing into \<open>destTokens\<close>.\<close>

fun choose_from :: "Card \<Rightarrow> Player \<Rightarrow> nat list \<Rightarrow> int list \<Rightarrow> int list" where
  "choose_from crd player [] destTokens = destTokens"
| "choose_from crd player (i # rest) destTokens =
     (let tokensNeeded = tokens_needed crd player i
      in if tokensNeeded > Player.tokens player ! i
         then choose_from crd player rest
                (destTokens[WILD := destTokens ! WILD
                                      + (tokensNeeded - Player.tokens player ! i),
                            i := Player.tokens player ! i])
         else choose_from crd player rest (destTokens[i := tokensNeeded]))"




subsection \<open>Taking tokens\<close>

fun piles_with_tokens :: "Game \<Rightarrow> nat list \<Rightarrow> int \<Rightarrow> int" where
  "piles_with_tokens game [] pilesWithTokens = pilesWithTokens"
| "piles_with_tokens game (i # rest) pilesWithTokens =
     piles_with_tokens game rest
       (if Game.tokens game ! i > 0 then pilesWithTokens + 1 else pilesWithTokens)"

definition can_tokens_be_taken :: "Game \<Rightarrow> bool" where
  "can_tokens_be_taken game =
     (piles_with_tokens game [0..<NUM_COLOURS] 0 \<ge> TOKENS_PER_TAKE)"

text \<open>The loop of \<open>is_valid_token_take\<close> with the running \<open>numTaken\<close>; the result is
  \<open>None\<close> when the loop returns false, and the final count otherwise.\<close>

fun token_take_from :: "Game \<Rightarrow> int list \<Rightarrow> nat list \<Rightarrow> int \<Rightarrow> int option" where
  "token_take_from game toks [] numTaken = Some numTaken"
| "token_take_from game toks (i # rest) numTaken =
     (if toks ! i = 1 \<and> Game.tokens game ! i > 0
      then token_take_from game toks rest (numTaken + 1)
      else if toks ! i \<noteq> 0 then None
      else token_take_from game toks rest numTaken)"

definition is_valid_token_take :: "Game \<Rightarrow> int list \<Rightarrow> bool" where
  "is_valid_token_take game toks =
     (case token_take_from game toks [0..<NUM_COLOURS] 0 of
        None \<Rightarrow> False
      | Some numTaken \<Rightarrow> numTaken = TOKENS_PER_TAKE)"

subsection \<open>Applying a move\<close>

text \<open>The loop of \<open>player_purchased_card\<close> over the token slots.\<close>

fun pay_from :: "Game \<Rightarrow> int \<Rightarrow> int list \<Rightarrow> nat list \<Rightarrow> Game" where
  "pay_from game playerId toks [] = game"
| "pay_from game playerId toks (i # rest) =
     (let p = Game.players game ! nat playerId;
          g1 = game\<lparr>Game.players := (Game.players game)[nat playerId :=
                 p\<lparr>Player.tokens := (Player.tokens p)[i := Player.tokens p ! i - toks ! i]\<rparr>]\<rparr>;
          g2 = (if i \<noteq> WILD
                then g1\<lparr>Game.tokens := (Game.tokens g1)[i := Game.tokens g1 ! i + toks ! i]\<rparr>
                else g1)
      in pay_from g2 playerId toks rest)"

definition player_purchased_card :: "Game \<Rightarrow> int \<Rightarrow> int \<Rightarrow> int list \<Rightarrow> Game" where
  "player_purchased_card game playerId cardId toks =
     (let crd = cards game ! nat cardId;
          g1 = take_card_from_board game cardId;
          g2 = pay_from g1 playerId toks [0..<TOKEN_SLOTS];
          p = Game.players g2 ! nat playerId;
          d = colour_index (discount crd)
      in g2\<lparr>Game.players := (Game.players g2)[nat playerId :=
              p\<lparr>Player.discounts := (Player.discounts p)[d := Player.discounts p ! d + 1],
                totalPoints := totalPoints p + cardValue crd\<rparr>]\<rparr>)"

text \<open>The loop of \<open>player_took_tokens\<close> over the four colours.\<close>

fun took_from :: "Game \<Rightarrow> int \<Rightarrow> int list \<Rightarrow> nat list \<Rightarrow> Game" where
  "took_from game playerId toks [] = game"
| "took_from game playerId toks (i # rest) =
     (let p = Game.players game ! nat playerId;
          g1 = game\<lparr>Game.players := (Game.players game)[nat playerId :=
                 p\<lparr>Player.tokens := (Player.tokens p)[i := Player.tokens p ! i + toks ! i]\<rparr>]\<rparr>
      in took_from (g1\<lparr>Game.tokens := (Game.tokens g1)[i := Game.tokens g1 ! i - toks ! i]\<rparr>)
           playerId toks rest)"

definition player_took_tokens :: "Game \<Rightarrow> int \<Rightarrow> int list \<Rightarrow> Game" where
  "player_took_tokens game playerId toks = took_from game playerId toks [0..<NUM_COLOURS]"


subsection \<open>Quantities of the rules\<close>



definition wild_total :: "Game \<Rightarrow> int" where
  "wild_total game = sum_list (map (\<lambda>p. Player.tokens p ! WILD) (Game.players game))"

text \<open>The sizes the C types fix: four piles on the board, five token counts and four
  discounts for each player, and \<open>numPlayers\<close> players.\<close>

definition wf_game :: "Game \<Rightarrow> bool" where
  "wf_game game \<longleftrightarrow>
     length (Game.tokens game) = NUM_COLOURS \<and>
     numPlayers game = int (length (Game.players game)) \<and>
     list_all (\<lambda>p. length (Player.tokens p) = TOKEN_SLOTS \<and>
                    length (Player.discounts p) = NUM_COLOURS) (Game.players game)"


text \<open>A position with three face-up cards and two players, used to evaluate the
  functions on concrete input.\<close>

definition sample_game :: Game where
  "sample_game =
     \<lparr>myId = 0, maxPoints = 10, numPlayers = 2, Game.tokens = [2, 0, 1, 3],
      cardsFacedUp = 3,
      cards = [\<lparr>discount = RED, cardValue = 2, price = [2, 1, 0, 3]\<rparr>,
               \<lparr>discount = PURPLE, cardValue = 1, price = [0, 0, 1, 0]\<rparr>,
               \<lparr>discount = BROWN, cardValue = 4, price = [9, 0, 0, 0]\<rparr>,
               \<lparr>discount = BROWN, cardValue = 0, price = [0, 0, 0, 0]\<rparr>,
               \<lparr>discount = BROWN, cardValue = 0, price = [0, 0, 0, 0]\<rparr>,
               \<lparr>discount = BROWN, cardValue = 0, price = [0, 0, 0, 0]\<rparr>,
               \<lparr>discount = BROWN, cardValue = 0, price = [0, 0, 0, 0]\<rparr>,
               \<lparr>discount = BROWN, cardValue = 0, price = [0, 0, 0, 0]\<rparr>],
      Game.players = [\<lparr>totalPoints = 1, Player.discounts = [1, 0, 0, 0],
                   Player.tokens = [0, 1, 1, 2, 2]\<rparr>,
                 \<lparr>totalPoints = 0, Player.discounts = [0, 0, 0, 0],
                   Player.tokens = [1, 1, 0, 0, 0]\<rparr>]\<rparr>"


section \<open>The server and its shared functions (ass4/server.c, ass4/shared.c)\<close>

subsection \<open>Files and streams\<close>

text \<open>A file system maps a path to the content of the file there. A \<open>FILE\<close> is a
  stream opened for reading: the content of the file and the position indicator.
  \<open>fopen\<close> fails (\<open>None\<close>) on a path with no file.\<close>

type_synonym filesystem = "string \<rightharpoonup> string"

record FILE =
  content :: string
  pos :: nat

definition newline :: char where "newline = CHR 0x0A"

definition fopen :: "filesystem \<Rightarrow> string \<Rightarrow> FILE option" where
  "fopen fs filename =
     (case fs filename of None \<Rightarrow> None | Some c \<Rightarrow> Some \<lparr>content = c, pos = 0\<rparr>)"

definition ftell :: "FILE \<Rightarrow> int" where
  "ftell file = int (pos file)"

text \<open>\<open>fseek(file, 0, SEEK_END)\<close>, and \<open>fseek(file, offset, SEEK_SET)\<close>, which fails and
  leaves the position where it is when the offset is negative.\<close>

definition fseek_end :: "FILE \<Rightarrow> FILE" where
  "fseek_end file = file\<lparr>pos := length (content file)\<rparr>"

definition fseek_set :: "FILE \<Rightarrow> int \<Rightarrow> FILE" where
  "fseek_set file offset = (if offset < 0 then file else file\<lparr>pos := nat offset\<rparr>)"

text \<open>\<open>fgetc\<close>: the character at the position, or \<open>None\<close> for \<open>EOF\<close>.\<close>

definition fgetc :: "FILE \<Rightarrow> char option \<times> FILE" where
  "fgetc file =
     (if pos file < length (content file)
      then (Some (content file ! pos file), file\<lparr>pos := pos file + 1\<rparr>)
      else (None, file))"

text \<open>\<open>does_file_end_newline\<close> (shared.c). On an empty file \<open>ftell(file) - sizeof(char)\<close>
  is \<open>-1\<close> as a \<open>long\<close>, the second \<open>fseek\<close> fails, \<open>fgetc\<close> gives \<open>EOF\<close> and
  \<open>last\<close> is not a newline.\<close>

definition does_file_end_newline :: "FILE \<Rightarrow> bool \<times> FILE" where
  "does_file_end_newline file =
     (let oldPos = ftell file;
          f1 = fseek_end file;
          f2 = fseek_set f1 (ftell f1 - 1);
          (last, f3) = fgetc f2;
          f4 = fseek_set f3 oldPos
      in (last = Some newline, f4))"

text \<open>
  Modelled from the spec: \<open>read_line\<close> belongs to the course library (\<open>util.h\<close>), which
  is not under src/. The formats of the spec are made of lines, each ended by a newline
  or by the end of the file (sections 4.1 and 4.8), and every caller takes a result
  \<open>\<le> 0\<close> as "no line". The model reads the characters up to the next newline, which
  it consumes and does not store, or up to the end of the file; it returns their number,
  the line and the stream. So the result is 0 at the end of the file and on an empty
  line.
\<close>

definition read_line :: "FILE \<Rightarrow> int \<times> string \<times> FILE" where
  "read_line file =
     (let rest = drop (pos file) (content file);
          line = takeWhile (\<lambda>c. c \<noteq> newline) rest;
          used = length line + (if length line < length rest then 1 else 0)
      in (int (length line), line, file\<lparr>pos := pos file + used\<rparr>))"

subsection \<open>The keyfile\<close>

text \<open>\<open>get_keyfile\<close> (shared.c): \<open>Some key\<close> when the function returns true, with the
  key it stored in \<open>dest\<close>; \<open>None\<close> when it returns false.\<close>

definition get_keyfile :: "filesystem \<Rightarrow> string \<Rightarrow> string option" where
  "get_keyfile fs filename =
     (case fopen fs filename of
        None \<Rightarrow> None
      | Some keyfile \<Rightarrow>
          (case read_line keyfile of (n, dest, f1) \<Rightarrow>
             if n \<le> 0 then None
             else (case does_file_end_newline f1 of (endsNewline, f2) \<Rightarrow>
                     let isValid = (\<not> endsNewline \<and> fst (fgetc f2) = None)
                     in if isValid then Some dest else None)))"

subsection \<open>Reading integers with \<open>sscanf\<close>\<close>

text \<open>The \<open>%d\<close> conversion of \<open>sscanf\<close>: white space is skipped, a sign may follow,
  and at least one decimal digit must; the result is the number and the rest of the
  input. A numeral beyond the range of \<open>int\<close> is undefined in C and is read here as
  its mathematical value.\<close>

definition isspace :: "char \<Rightarrow> bool" where
  "isspace c \<longleftrightarrow> c \<in> set [CHR '' '', CHR 0x09, CHR 0x0A, CHR 0x0B, CHR 0x0C, CHR 0x0D]"

definition isdigit :: "char \<Rightarrow> bool" where
  "isdigit c \<longleftrightarrow> (of_char (CHR ''0'') :: nat) \<le> of_char c \<and>
                 (of_char c :: nat) \<le> of_char (CHR ''9'')"

fun digits_value :: "string \<Rightarrow> int \<Rightarrow> int" where
  "digits_value [] acc = acc"
| "digits_value (c # cs) acc =
     digits_value cs (10 * acc + (of_char c - of_char (CHR ''0'')))"

definition scan_d :: "string \<Rightarrow> (int \<times> string) option" where
  "scan_d s =
     (let s1 = dropWhile isspace s;
          neg = (s1 \<noteq> [] \<and> hd s1 = CHR ''-'');
          s2 = (if s1 \<noteq> [] \<and> (hd s1 = CHR ''-'' \<or> hd s1 = CHR ''+'') then tl s1 else s1);
          ds = takeWhile isdigit s2
      in if ds = [] then None
         else Some (if neg then - digits_value ds 0 else digits_value ds 0,
                    dropWhile isdigit s2))"

text \<open>An ordinary character of the format matches the same character of the input.\<close>

definition scan_lit :: "char \<Rightarrow> string \<Rightarrow> string option" where
  "scan_lit c s = (case s of [] \<Rightarrow> None | x # rest \<Rightarrow> if x = c then Some rest else None)"

text \<open>\<open>sscanf(line, "%d,%d,%d,%d", ...)\<close>: the number of integers assigned, or \<open>EOF\<close>
  (\<open>-1\<close>) when the input ends before the first one, and the integers assigned.\<close>

definition sscanf_4d :: "string \<Rightarrow> int \<times> int list" where
  "sscanf_4d line =
     (case scan_d line of
        None \<Rightarrow> (if dropWhile isspace line = [] then - 1 else 0, [])
      | Some (a, r1) \<Rightarrow>
     (case scan_lit (CHR '','') r1 of None \<Rightarrow> (1, [a]) | Some r2 \<Rightarrow>
     (case scan_d r2 of None \<Rightarrow> (1, [a]) | Some (b, r3) \<Rightarrow>
     (case scan_lit (CHR '','') r3 of None \<Rightarrow> (2, [a, b]) | Some r4 \<Rightarrow>
     (case scan_d r4 of None \<Rightarrow> (2, [a, b]) | Some (c, r5) \<Rightarrow>
     (case scan_lit (CHR '','') r5 of None \<Rightarrow> (3, [a, b, c]) | Some r6 \<Rightarrow>
     (case scan_d r6 of None \<Rightarrow> (3, [a, b, c]) | Some (d, r7) \<Rightarrow>
        (4, [a, b, c, d]))))))))"

subsection \<open>The statfile\<close>

definition MAX_PORT :: int where "MAX_PORT = 65535"
definition MIN_START_TOKENS :: int where "MIN_START_TOKENS = 1"
definition MIN_WIN :: int where "MIN_WIN = 1"

text \<open>
  Modelled from the spec: \<open>MIN_PLAYERS\<close> comes from the course library's \<open>game.h\<close>,
  which is not under src/; a statfile entry has \<open>playerCount\<close> in 2 .. 26 (section 3).
  The library's \<open>MAX_PLAYERS\<close> is the 26 of \<open>MAX_PLAYERS\<close> above.
\<close>

definition MIN_PLAYERS :: int where "MIN_PLAYERS = 2"

record StatfileEntry =
  port :: int
  tokens :: int
  points :: int
  players :: int

text \<open>The scan for a port already in the statfile: the loop leaves at the first entry
  with the port, or runs to the end; \<open>load_statfile\<close> goes on in the same way after
  either. The result is the index the loop stops at.\<close>

fun port_scan :: "StatfileEntry list \<Rightarrow> int \<Rightarrow> nat list \<Rightarrow> nat" where
  "port_scan entries p [] = length entries"
| "port_scan entries p (i # rest) =
     (if StatfileEntry.port (entries ! i) = p then i else port_scan entries p rest)"

text \<open>The loop of \<open>load_statfile\<close>: \<open>entries\<close> is \<open>server->statfileEntries\<close>, of
  \<open>server->statfileSize\<close> elements. The result is \<open>valid\<close> at the end of the loop, the
  stream and the entries.\<close>

function load_entries :: "FILE \<Rightarrow> StatfileEntry list \<Rightarrow> bool \<times> FILE \<times> StatfileEntry list" where
  "load_entries file entries =
     (case read_line file of (n, line, f1) \<Rightarrow>
        if n \<le> 0 then (True, f1, entries)
        else (case sscanf_4d line of (result, vals) \<Rightarrow>
          if result \<noteq> 4 then (False, f1, entries)
          else
            let entry = \<lparr>port = vals ! 0, StatfileEntry.tokens = vals ! 1,
                         points = vals ! 2, StatfileEntry.players = vals ! 3\<rparr>
            in if StatfileEntry.port entry < 0 \<or> StatfileEntry.port entry > MAX_PORT \<or>
                  StatfileEntry.tokens entry < MIN_START_TOKENS \<or>
                  StatfileEntry.points entry < MIN_WIN \<or>
                  StatfileEntry.players entry < MIN_PLAYERS \<or>
                  StatfileEntry.players entry > MAX_PLAYERS
               then (False, f1, entries)
               else
                 let stopped = (if StatfileEntry.port entry \<noteq> 0
                                then port_scan entries (StatfileEntry.port entry)
                                       [0..<length entries]
                                else 0)
                 in load_entries f1 (entries @ [entry])))"
  by pat_completeness auto
termination
  apply (relation "measure (\<lambda>(f, entries). length (content f) - pos f)")
   apply simp
  apply (auto simp: read_line_def Let_def split: if_splits)
   apply (metis drop_all linorder_not_less takeWhile.simps(1))+
  done

declare load_entries.simps [simp del]

text \<open>\<open>load_statfile\<close>: the result and the entries of the server after the call.\<close>

definition load_statfile :: "filesystem \<Rightarrow> StatfileEntry list \<Rightarrow> string \<Rightarrow> bool \<times> StatfileEntry list" where
  "load_statfile fs entries filename =
     (case fopen fs filename of
        None \<Rightarrow> (False, entries)
      | Some file \<Rightarrow>
          (case load_entries file entries of (valid, f1, entries1) \<Rightarrow>
             (case does_file_end_newline f1 of (endsNewline, f2) \<Rightarrow>
                (valid \<and> \<not> endsNewline, entries1))))"

text \<open>The exit codes of the server, and the first step of the loop of \<open>run_server\<close>:
  it returns \<open>BAD_STATFILE\<close> when the statfile does not load, and goes on (\<open>None\<close>)
  otherwise.\<close>

datatype ExitCode = NORMAL_EXIT | WRONG_ARGS | BAD_KEYFILE | BAD_DECKFILE | BAD_STATFILE
  | BAD_TIMEOUT | FAILED_LISTEN | SYSTEM_ERROR

fun exit_status :: "ExitCode \<Rightarrow> int" where
  "exit_status NORMAL_EXIT = 0"
| "exit_status WRONG_ARGS = 1"
| "exit_status BAD_KEYFILE = 2"
| "exit_status BAD_DECKFILE = 3"
| "exit_status BAD_STATFILE = 4"
| "exit_status BAD_TIMEOUT = 5"
| "exit_status FAILED_LISTEN = 6"
| "exit_status SYSTEM_ERROR = 10"

definition run_server_load :: "filesystem \<Rightarrow> StatfileEntry list \<Rightarrow> string \<Rightarrow> ExitCode option" where
  "run_server_load fs entries statfile =
     (if \<not> fst (load_statfile fs entries statfile) then Some BAD_STATFILE else None)"

text \<open>The keyfile step of \<open>main\<close>: \<open>load_keyfile\<close> stores the key of \<open>get_keyfile\<close>,
  and the server exits with \<open>BAD_KEYFILE\<close> without one.\<close>

definition main_load_keyfile :: "filesystem \<Rightarrow> string \<Rightarrow> ExitCode + string" where
  "main_load_keyfile fs filename =
     (case get_keyfile fs filename of None \<Rightarrow> Inl BAD_KEYFILE | Some key \<Rightarrow> Inr key)"

text \<open>A statfile of two entries with the port 80, the last line not ended by a newline.\<close>

definition sample_statfile :: string where
  "sample_statfile = ''80,1,1,2'' @ [newline] @ ''80,3,5,4''"


subsection \<open>A player's turn in the game loop\<close>

text \<open>The values of the library's \<open>enum ErrorCode\<close> that \<open>do_what\<close> returns.\<close>

datatype ErrorCode = NOTHING_WRONG | PROTOCOL_ERROR | PLAYER_CLOSED

text \<open>
  The inner \<open>while (true)\<close> loop of \<open>run_game_loop\<close>, which runs one player's turn.
  Each element of the list is what one round of the loop meets: the result of
  \<open>do_what\<close> (which sends \<open>dowhat\<close> and reads the player's answer) and, for use after
  \<open>PLAYER_CLOSED\<close>, the result of \<open>wait_for_reconnect\<close>. \<open>hadAttempt\<close> is the local
  variable of that name, false when the turn starts. The turn ends with the next
  player's turn (\<open>break\<close> on \<open>NOTHING_WRONG\<close>) or with \<open>gameStopped\<close> set and \<open>err\<close>
  kept for the message after the loop; when the list ends first, the loop is about to
  call \<open>do_what\<close> again, with the \<open>hadAttempt\<close> given.
\<close>

datatype TurnState = NextPlayer | GameStopped ErrorCode | AwaitingMove bool

fun player_turn :: "bool \<Rightarrow> (ErrorCode \<times> bool) list \<Rightarrow> TurnState" where
  "player_turn hadAttempt [] = AwaitingMove hadAttempt"
| "player_turn hadAttempt ((err, reconnected) # rest) =
     (if err = PROTOCOL_ERROR
      then (if hadAttempt then GameStopped PROTOCOL_ERROR else player_turn True rest)
      else if err = PLAYER_CLOSED
      then (if reconnected then player_turn hadAttempt rest else GameStopped PLAYER_CLOSED)
      else if err = NOTHING_WRONG then NextPlayer
      else player_turn hadAttempt rest)"

text \<open>The message \<open>run_game_loop\<close> sends to all players after the loops, for a game not
  finished by \<open>SIGTERM\<close>; \<open>player\<close> is the loop variable, one past the player whose
  turn stopped the game.\<close>

definition player_letter :: "int \<Rightarrow> char" where
  "player_letter player = char_of (of_char (CHR ''A'') + (player - 1))"

definition end_message :: "ErrorCode \<Rightarrow> int \<Rightarrow> string" where
  "end_message err player =
     (if err = PLAYER_CLOSED then ''disco'' @ [player_letter player, newline]
      else if err = PROTOCOL_ERROR then ''invalid'' @ [player_letter player, newline]
      else if err = NOTHING_WRONG then ''eog'' @ [newline]
      else [])"


subsection \<open>Players, games and lobbies of the server\<close>

text \<open>
  Modelled from the spec: \<open>struct Player\<close>, \<open>struct GamePlayer\<close>, \<open>struct Game\<close> and
  \<open>TOKEN_MAX\<close> are declared in the course library (\<open>player.h\<close>, \<open>game.h\<close>,
  \<open>token.h\<close>), which is not under src/. The records below (\<open>LibPlayer\<close> for
  \<open>struct Player\<close>, \<open>LibGame\<close> for \<open>struct Game\<close>) have the fields server.c reads and
  writes, under the names it uses; the game data and the board are left out. A player
  holds tokens of the four colours and wilds (section 3), so \<open>TOKEN_MAX\<close> is 5; the
  two streams of a \<open>GamePlayer\<close> are numbers.
\<close>

definition TOKEN_MAX :: int where "TOKEN_MAX = 5"

record LibPlayer =
  name :: string
  playerId :: int
  score :: int
  discounts :: "int list"
  tokens :: "int list"

record GamePlayer =
  state :: LibPlayer
  fromPlayer :: nat
  toPlayer :: nat

record 'card LibGame =
  name :: string
  playerCount :: int
  players :: "GamePlayer list"
  deck :: "'card list"
  deckSize :: int
  tokenCount :: "int list"
  winScore :: int
  boardSize :: int

text \<open>\<open>struct Lobby\<close> (server.c); the field \<open>open\<close> is \<open>isOpen\<close> here. \<open>players\<close> is
  the array of \<open>details.players\<close> slots that \<open>create_lobby\<close> allocates, of which the
  first \<open>currentClients\<close> are filled.\<close>

record Lobby =
  name :: string
  currentClients :: int
  players :: "GamePlayer list"
  details :: StatfileEntry
  isOpen :: bool

subsection \<open>\<open>strcmp\<close> and \<open>qsort\<close>\<close>

text \<open>\<open>strcmp\<close> of the C library compares two strings as sequences of unsigned
  characters; the standard fixes the sign of its result, which is all the callers
  read. The model returns \<open>-1\<close>, \<open>0\<close> or \<open>1\<close>.\<close>

fun strcmp :: "string \<Rightarrow> string \<Rightarrow> int" where
  "strcmp [] [] = 0"
| "strcmp [] (y # ys) = - 1"
| "strcmp (x # xs) [] = 1"
| "strcmp (x # xs) (y # ys) =
     (if x = y then strcmp xs ys
      else if (of_char x :: nat) < of_char y then - 1 else 1)"

text \<open>
  \<open>qsort\<close> of the C library is a parameter of the functions that call it. The
  standard promises an array sorted in ascending order of the comparison function and
  leaves the order of elements that compare equal open: for a comparison \<open>cmp\<close> that
  is total and transitive on the elements of \<open>xs\<close>, \<open>qsort cmp xs\<close> is a permutation of
  \<open>xs\<close> in which \<open>cmp a b \<le> 0\<close> for every \<open>a\<close> that stands before a \<open>b\<close>.
\<close>

definition cmp_consistent :: "('a \<Rightarrow> 'a \<Rightarrow> int) \<Rightarrow> 'a set \<Rightarrow> bool" where
  "cmp_consistent cmp S \<longleftrightarrow>
     (\<forall>a\<in>S. \<forall>b\<in>S. cmp a b \<le> 0 \<or> cmp b a \<le> 0) \<and>
     (\<forall>a\<in>S. \<forall>b\<in>S. \<forall>c\<in>S. cmp a b \<le> 0 \<and> cmp b c \<le> 0 \<longrightarrow> cmp a c \<le> 0)"

definition is_qsort :: "(('a \<Rightarrow> 'a \<Rightarrow> int) \<Rightarrow> 'a list \<Rightarrow> 'a list) \<Rightarrow> bool" where
  "is_qsort qsort \<longleftrightarrow>
     (\<forall>cmp xs. cmp_consistent cmp (set xs) \<longrightarrow>
        mset (qsort cmp xs) = mset xs \<and>
        sorted_wrt (\<lambda>a b. cmp a b \<le> 0) (qsort cmp xs))"

text \<open>One sorting function of that kind, by insertion, to run the callers on concrete
  input.\<close>

fun insert_by :: "('a \<Rightarrow> 'a \<Rightarrow> int) \<Rightarrow> 'a \<Rightarrow> 'a list \<Rightarrow> 'a list" where
  "insert_by cmp x [] = [x]"
| "insert_by cmp x (y # ys) =
     (if cmp x y \<le> 0 then x # y # ys else y # insert_by cmp x ys)"

fun insertion_qsort :: "('a \<Rightarrow> 'a \<Rightarrow> int) \<Rightarrow> 'a list \<Rightarrow> 'a list" where
  "insertion_qsort cmp [] = []"
| "insertion_qsort cmp (x # xs) = insert_by cmp x (insertion_qsort cmp xs)"

subsection \<open>The scoreboard\<close>

text \<open>\<open>count_tokens\<close> (shared.c); \<open>cnt\<close> is the running \<open>count\<close>.\<close>

fun count_from :: "int list \<Rightarrow> nat list \<Rightarrow> int \<Rightarrow> int" where
  "count_from tokenPool [] cnt = cnt"
| "count_from tokenPool (i # rest) cnt = count_from tokenPool rest (cnt + tokenPool ! i)"

definition count_tokens :: "int list \<Rightarrow> int \<Rightarrow> int" where
  "count_tokens tokenPool numPiles = count_from tokenPool [0..<nat numPiles] 0"

record PlayerScore =
  name :: string
  tokens :: int
  points :: int

definition score_sort :: "PlayerScore \<Rightarrow> PlayerScore \<Rightarrow> int" where
  "score_sort p1 p2 =
     (let pointCompare = PlayerScore.points p2 - PlayerScore.points p1
      in if pointCompare = 0 then PlayerScore.tokens p1 - PlayerScore.tokens p2
         else pointCompare)"

text \<open>The loops of \<open>print_scores\<close>. \<open>scores\<close> holds the \<open>uniquePlayers\<close> entries in use
  of the array of that name. \<open>find_name\<close> is the loop over \<open>j\<close> with the running
  \<open>newPlayer\<close>; \<open>add_score\<close> is the body of the loop over the players of a game (the
  name of a new entry is set by the store that follows, and is empty before it).\<close>

fun find_name :: "PlayerScore list \<Rightarrow> string \<Rightarrow> nat list \<Rightarrow> int \<Rightarrow> int" where
  "find_name scores pname [] newPlayer = newPlayer"
| "find_name scores pname (j # rest) newPlayer =
     find_name scores pname rest
       (if strcmp (PlayerScore.name (scores ! j)) pname = 0 then int j else newPlayer)"

definition add_score :: "PlayerScore list \<Rightarrow> LibPlayer \<Rightarrow> PlayerScore list" where
  "add_score scores player =
     (let found = find_name scores (LibPlayer.name player) [0..<length scores] (- 1);
          newPlayer = (if found = - 1 then int (length scores) else found);
          scores1 = (if found = - 1
                     then scores @ [\<lparr>PlayerScore.name = [], PlayerScore.tokens = 0,
                                      PlayerScore.points = 0\<rparr>]
                     else scores);
          e = scores1 ! nat newPlayer
      in scores1[nat newPlayer :=
           e\<lparr>PlayerScore.name := LibPlayer.name player,
             PlayerScore.tokens := PlayerScore.tokens e
                + count_tokens (LibPlayer.tokens player) TOKEN_MAX,
             PlayerScore.points := PlayerScore.points e + score player\<rparr>])"

fun scores_of_players :: "GamePlayer list \<Rightarrow> nat list \<Rightarrow> PlayerScore list \<Rightarrow> PlayerScore list" where
  "scores_of_players ps [] scores = scores"
| "scores_of_players ps (i # rest) scores =
     scores_of_players ps rest (add_score scores (state (ps ! i)))"

fun scores_of_games :: "'card LibGame list \<Rightarrow> PlayerScore list \<Rightarrow> PlayerScore list" where
  "scores_of_games [] scores = scores"
| "scores_of_games (g # games) scores =
     scores_of_games games
       (scores_of_players (LibGame.players g) [0..<nat (playerCount g)] scores)"

text \<open>\<open>%d\<close> of \<open>fprintf\<close>.\<close>

definition digit_char :: "nat \<Rightarrow> char" where
  "digit_char n = char_of (of_char (CHR ''0'') + n)"

function show_nat :: "nat \<Rightarrow> string" where
  "show_nat n = (if n < 10 then [digit_char n] else show_nat (n div 10) @ [digit_char (n mod 10)])"
  by pat_completeness auto
termination
  by (relation "measure id") auto

declare show_nat.simps [simp del]

definition show_int :: "int \<Rightarrow> string" where
  "show_int i = (if i < 0 then CHR ''-'' # show_nat (nat (- i)) else show_nat (nat i))"

definition scores_header :: string where
  "scores_header = ''Player Name,Total Tokens,Total Points'' @ [newline]"

definition score_line :: "PlayerScore \<Rightarrow> string" where
  "score_line e =
     PlayerScore.name e @ '','' @ show_int (PlayerScore.tokens e) @ '',''
       @ show_int (PlayerScore.points e) @ [newline]"

text \<open>\<open>print_scores\<close>: what is written to the client. \<open>games\<close> is \<open>server->games\<close>, of
  \<open>server->gameCount\<close> elements. The first loop of the function only sizes the array
  \<open>scores\<close>.\<close>

definition print_scores ::
  "((PlayerScore \<Rightarrow> PlayerScore \<Rightarrow> int) \<Rightarrow> PlayerScore list \<Rightarrow> PlayerScore list)
     \<Rightarrow> 'card LibGame list \<Rightarrow> string" where
  "print_scores qsort games =
     scores_header @ concat (map score_line (qsort score_sort (scores_of_games games [])))"

text \<open>The words of the spec: the players of all games, past and present; the tokens a
  player holds in the five piles; and the totals of a name over every game in which
  the name takes part.\<close>

definition all_players :: "'card LibGame list \<Rightarrow> LibPlayer list" where
  "all_players games = concat (map (\<lambda>g. map state (LibGame.players g)) games)"

definition five_piles :: "LibPlayer \<Rightarrow> int" where
  "five_piles p =
     LibPlayer.tokens p ! 0 + LibPlayer.tokens p ! 1 + LibPlayer.tokens p ! 2
       + LibPlayer.tokens p ! 3 + LibPlayer.tokens p ! 4"

definition total_tokens :: "'card LibGame list \<Rightarrow> string \<Rightarrow> int" where
  "total_tokens games n =
     sum_list (map five_piles (filter (\<lambda>p. LibPlayer.name p = n) (all_players games)))"

definition total_points :: "'card LibGame list \<Rightarrow> string \<Rightarrow> int" where
  "total_points games n =
     sum_list (map score (filter (\<lambda>p. LibPlayer.name p = n) (all_players games)))"

text \<open>A table of scores holds the totals of the players \<open>ps\<close>: one entry for each name
  among them, with the sums over the players of that name.\<close>

definition totals_of :: "LibPlayer list \<Rightarrow> PlayerScore list \<Rightarrow> bool" where
  "totals_of ps scores \<longleftrightarrow>
     distinct (map PlayerScore.name scores) \<and>
     set (map PlayerScore.name scores) = set (map LibPlayer.name ps) \<and>
     (\<forall>e\<in>set scores.
        PlayerScore.tokens e
          = sum_list (map five_piles (filter (\<lambda>p. LibPlayer.name p = PlayerScore.name e) ps)) \<and>
        PlayerScore.points e
          = sum_list (map score (filter (\<lambda>p. LibPlayer.name p = PlayerScore.name e) ps)))"

text \<open>Two finished games, those of the scoreboard scenario of the spec (section 8,
  scenario 6).\<close>

definition sample_games :: "unit LibGame list" where
  "sample_games =
     [\<lparr>LibGame.name = ''game'', playerCount = 2,
       LibGame.players =
         [\<lparr>state = \<lparr>LibPlayer.name = ''alice'', playerId = 0, score = 5,
                     LibPlayer.discounts = [1, 0, 0, 0], LibPlayer.tokens = [1, 0, 0, 0, 1]\<rparr>,
           fromPlayer = 4, toPlayer = 5\<rparr>,
          \<lparr>state = \<lparr>LibPlayer.name = ''bob'', playerId = 1, score = 3,
                     LibPlayer.discounts = [0, 1, 0, 0], LibPlayer.tokens = [0, 1, 0, 0, 0]\<rparr>,
           fromPlayer = 6, toPlayer = 7\<rparr>],
       deck = [], deckSize = 0, tokenCount = [1, 1, 2, 2], winScore = 5, boardSize = 0\<rparr>,
      \<lparr>LibGame.name = ''game'', playerCount = 2,
       LibGame.players =
         [\<lparr>state = \<lparr>LibPlayer.name = ''alice'', playerId = 0, score = 2,
                     LibPlayer.discounts = [0, 0, 0, 1], LibPlayer.tokens = [0, 0, 0, 0, 0]\<rparr>,
           fromPlayer = 8, toPlayer = 9\<rparr>,
          \<lparr>state = \<lparr>LibPlayer.name = ''carol'', playerId = 1, score = 4,
                     LibPlayer.discounts = [0, 0, 1, 0], LibPlayer.tokens = [1, 1, 0, 0, 1]\<rparr>,
           fromPlayer = 10, toPlayer = 11\<rparr>],
       deck = [], deckSize = 0, tokenCount = [2, 2, 3, 3], winScore = 4, boardSize = 0\<rparr>]"


section \<open>Properties of the game rules\<close>

subsection \<open>The index ranges of the colour loops\<close>

lemma upt_NUM_COLOURS: "[0..<NUM_COLOURS] = [0, 1, 2, 3]"
  by (simp add: NUM_COLOURS_def upt_conv_Cons)

lemma upt_TOKEN_SLOTS: "[0..<TOKEN_SLOTS] = [0, 1, 2, 3, 4]"
  by (simp add: TOKEN_SLOTS_def upt_conv_Cons)

lemma all_less_NUM_COLOURS: "(\<forall>c < NUM_COLOURS. P c) \<longleftrightarrow> P 0 \<and> P 1 \<and> P 2 \<and> P 3"
  by (auto simp: NUM_COLOURS_def less_Suc_eq numeral_eq_Suc)

lemma all_less_TOKEN_SLOTS:
  "(\<forall>c < TOKEN_SLOTS. P c) \<longleftrightarrow> P 0 \<and> P 1 \<and> P 2 \<and> P 3 \<and> P 4"
  by (auto simp: TOKEN_SLOTS_def less_Suc_eq numeral_eq_Suc)


subsection \<open>Purchase legality\<close>





lemma length_choose_from: "length (choose_from crd player idxs dest) = length dest"
  by (induction idxs arbitrary: dest) (auto simp: Let_def)







subsection \<open>Token-take legality\<close>

lemma ball_upt: "(\<forall>i\<in>set [0..<n]. P i) \<longleftrightarrow> (\<forall>i<n. P i)"
  by auto

lemma token_take_from_eq:
  "token_take_from game toks idxs n =
     (if (\<forall>i\<in>set idxs. toks ! i = 0 \<or> toks ! i = 1) \<and>
         (\<forall>i\<in>set idxs. toks ! i = 1 \<longrightarrow> Game.tokens game ! i > 0)
      then Some (n + int (length (filter (\<lambda>i. toks ! i = 1) idxs)))
      else None)"
  by (induction idxs arbitrary: n) auto

text \<open>
  Claim C2. \<open>is_valid_token_take\<close> accepts a request exactly when each of its four
  entries is 0 or 1, exactly three of them are 1, and every entry that is 1 stands at a
  colour whose pile on the board holds at least one token.
\<close>

theorem is_valid_token_take_iff:
  "is_valid_token_take game toks \<longleftrightarrow>
     (\<forall>i < NUM_COLOURS. toks ! i = 0 \<or> toks ! i = 1) \<and>
     length (filter (\<lambda>i. toks ! i = 1) [0..<NUM_COLOURS]) = 3 \<and>
     (\<forall>i < NUM_COLOURS. toks ! i = 1 \<longrightarrow> Game.tokens game ! i > 0)"
proof (cases "(\<forall>i < NUM_COLOURS. toks ! i = 0 \<or> toks ! i = 1) \<and>
     (\<forall>i < NUM_COLOURS. toks ! i = 1 \<longrightarrow> Game.tokens game ! i > 0)")
  case True
  then have "token_take_from game toks [0..<NUM_COLOURS] 0
      = Some (int (length (filter (\<lambda>i. toks ! i = 1) [0..<NUM_COLOURS])))"
    unfolding token_take_from_eq ball_upt by simp
  with True show ?thesis
    by (simp add: is_valid_token_take_def TOKENS_PER_TAKE_def)
next
  case False
  then have "token_take_from game toks [0..<NUM_COLOURS] 0 = None"
    unfolding token_take_from_eq ball_upt by simp
  with False show ?thesis
    by (auto simp: is_valid_token_take_def)
qed
text \<open>On the piles 2, 0, 1, 3 of \<open>sample_game\<close>: one token of each stocked colour is
  accepted; a token of the empty brown pile, two tokens of one colour and a take of two
  tokens are refused.\<close>

theorem is_valid_token_take_witness:
  "is_valid_token_take sample_game [1, 0, 1, 1] \<and>
   \<not> is_valid_token_take sample_game [1, 1, 1, 0] \<and>
   \<not> is_valid_token_take sample_game [2, 0, 1, 1] \<and>
   \<not> is_valid_token_take sample_game [1, 0, 1, 0]"
proof -
  have idx: "(\<forall>c < NUM_COLOURS. P c) \<longleftrightarrow> P 0 \<and> P 1 \<and> P 2 \<and> P 3" for P
    by (auto simp: NUM_COLOURS_def less_Suc_eq numeral_eq_Suc)
  show ?thesis
    using is_valid_token_take_iff[of sample_game "[1, 0, 1, 1]"]
      is_valid_token_take_iff[of sample_game "[1, 1, 1, 0]"]
      is_valid_token_take_iff[of sample_game "[2, 0, 1, 1]"]
      is_valid_token_take_iff[of sample_game "[1, 0, 1, 0]"]
    by (simp add: idx upt_NUM_COLOURS sample_game_def)
qed

subsection \<open>What the move-applying functions change\<close>

lemma length_shift_cards: "length (shift_cards cs i n) = length cs"
proof (induction cs i n rule: shift_cards.induct)
  case (1 cs i n)
  show ?case
  proof (cases "i < n")
    case True
    with 1 show ?thesis by (subst shift_cards.simps) simp
  next
    case False
    then show ?thesis by (subst shift_cards.simps) simp
  qed
qed

lemma shift_cards_nth:
  "0 \<le> i \<Longrightarrow> n \<le> int (length cs) \<Longrightarrow>
   shift_cards cs i n ! j = (if nat i \<le> j \<and> int j + 1 < n then cs ! (j + 1) else cs ! j)"
proof (induction cs i n arbitrary: j rule: shift_cards.induct)
  case (1 cs i n)
  show ?case
  proof (cases "i < n")
    case False
    then show ?thesis by (subst shift_cards.simps) auto
  next
    case True
    let ?cs' = "if i + 1 < n then cs[nat i := cs ! nat (i + 1)] else cs"
    have len: "n \<le> int (length ?cs')" using "1.prems" by simp
    have step: "shift_cards cs i n = shift_cards ?cs' (i + 1) n"
      using True by (subst shift_cards.simps) simp
    have IH: "shift_cards ?cs' (i + 1) n ! j
        = (if nat (i + 1) \<le> j \<and> int j + 1 < n then ?cs' ! (j + 1) else ?cs' ! j)"
      using "1.IH"[OF True _ len] "1.prems" by simp
    have succ: "nat (i + 1) = Suc (nat i)" using "1.prems" by simp
    have res: "shift_cards cs i n ! j
        = (if nat (i + 1) \<le> j \<and> int j + 1 < n then ?cs' ! (j + 1) else ?cs' ! j)"
      using step IH by (simp only:)
    show ?thesis
    proof (cases "i + 1 < n")
      case False
      with True "1.prems" show ?thesis unfolding res by auto
    next
      case lt: True
      have inb: "nat i < length cs" using True "1.prems" by simp
      show ?thesis
        unfolding res using lt inb "1.prems"
        by (auto simp: nth_list_update succ)
    qed
  qed
qed

lemma pay_from_frame:
  "cards (pay_from g pid toks idxs) = cards g \<and>
   cardsFacedUp (pay_from g pid toks idxs) = cardsFacedUp g \<and>
   myId (pay_from g pid toks idxs) = myId g \<and>
   maxPoints (pay_from g pid toks idxs) = maxPoints g \<and>
   numPlayers (pay_from g pid toks idxs) = numPlayers g \<and>
   length (Game.players (pay_from g pid toks idxs)) = length (Game.players g) \<and>
   length (Game.tokens (pay_from g pid toks idxs)) = length (Game.tokens g)"
  by (induction idxs arbitrary: g) (simp_all add: Let_def)

lemma pay_from_other:
  "q \<noteq> nat pid \<Longrightarrow> Game.players (pay_from g pid toks idxs) ! q = Game.players g ! q"
  by (induction idxs arbitrary: g) (simp_all add: Let_def)

lemma pay_from_player_frame:
  "nat pid < length (Game.players g) \<Longrightarrow>
   totalPoints (Game.players (pay_from g pid toks idxs) ! nat pid) = totalPoints (Game.players g ! nat pid) \<and>
   Player.discounts (Game.players (pay_from g pid toks idxs) ! nat pid) = Player.discounts (Game.players g ! nat pid) \<and>
   length (Player.tokens (Game.players (pay_from g pid toks idxs) ! nat pid))
     = length (Player.tokens (Game.players g ! nat pid))"
  by (induction idxs arbitrary: g) (simp_all add: Let_def)

lemma pay_from_player_tokens:
  "nat pid < length (Game.players g) \<Longrightarrow> distinct idxs \<Longrightarrow>
   \<forall>i\<in>set idxs. i < length (Player.tokens (Game.players g ! nat pid)) \<Longrightarrow>
   Player.tokens (Game.players (pay_from g pid toks idxs) ! nat pid) ! i
     = (if i \<in> set idxs then Player.tokens (Game.players g ! nat pid) ! i - toks ! i
        else Player.tokens (Game.players g ! nat pid) ! i)"
proof (induction idxs arbitrary: g)
  case Nil
  then show ?case by simp
next
  case (Cons a rest)
  then show ?case by (auto simp: Let_def nth_list_update)
qed

lemma pay_from_board_tokens:
  "distinct idxs \<Longrightarrow> \<forall>i\<in>set idxs. i \<noteq> WILD \<longrightarrow> i < length (Game.tokens g) \<Longrightarrow>
   Game.tokens (pay_from g pid toks idxs) ! c
     = (if c \<in> set idxs \<and> c \<noteq> WILD then Game.tokens g ! c + toks ! c
        else Game.tokens g ! c)"
proof (induction idxs arbitrary: g)
  case Nil
  then show ?case by simp
next
  case (Cons a rest)
  then show ?case by (auto simp: Let_def nth_list_update)
qed

lemma took_from_frame:
  "cards (took_from g pid toks idxs) = cards g \<and>
   cardsFacedUp (took_from g pid toks idxs) = cardsFacedUp g \<and>
   myId (took_from g pid toks idxs) = myId g \<and>
   maxPoints (took_from g pid toks idxs) = maxPoints g \<and>
   numPlayers (took_from g pid toks idxs) = numPlayers g \<and>
   length (Game.players (took_from g pid toks idxs)) = length (Game.players g) \<and>
   length (Game.tokens (took_from g pid toks idxs)) = length (Game.tokens g)"
  by (induction idxs arbitrary: g) (simp_all add: Let_def)

lemma took_from_other:
  "q \<noteq> nat pid \<Longrightarrow> Game.players (took_from g pid toks idxs) ! q = Game.players g ! q"
  by (induction idxs arbitrary: g) (simp_all add: Let_def)

lemma took_from_player_frame:
  "nat pid < length (Game.players g) \<Longrightarrow>
   totalPoints (Game.players (took_from g pid toks idxs) ! nat pid) = totalPoints (Game.players g ! nat pid) \<and>
   Player.discounts (Game.players (took_from g pid toks idxs) ! nat pid) = Player.discounts (Game.players g ! nat pid) \<and>
   length (Player.tokens (Game.players (took_from g pid toks idxs) ! nat pid))
     = length (Player.tokens (Game.players g ! nat pid))"
  by (induction idxs arbitrary: g) (simp_all add: Let_def)

lemma took_from_player_tokens:
  "nat pid < length (Game.players g) \<Longrightarrow> distinct idxs \<Longrightarrow>
   \<forall>i\<in>set idxs. i < length (Player.tokens (Game.players g ! nat pid)) \<Longrightarrow>
   Player.tokens (Game.players (took_from g pid toks idxs) ! nat pid) ! i
     = (if i \<in> set idxs then Player.tokens (Game.players g ! nat pid) ! i + toks ! i
        else Player.tokens (Game.players g ! nat pid) ! i)"
proof (induction idxs arbitrary: g)
  case Nil
  then show ?case by simp
next
  case (Cons a rest)
  then show ?case by (auto simp: Let_def nth_list_update)
qed

lemma took_from_board_tokens:
  "distinct idxs \<Longrightarrow> \<forall>i\<in>set idxs. i < length (Game.tokens g) \<Longrightarrow>
   Game.tokens (took_from g pid toks idxs) ! c
     = (if c \<in> set idxs then Game.tokens g ! c - toks ! c else Game.tokens g ! c)"
proof (induction idxs arbitrary: g)
  case Nil
  then show ?case by simp
next
  case (Cons a rest)
  then show ?case by (auto simp: Let_def nth_list_update)
qed

lemma take_shift_cards:
  assumes "0 \<le> i" "i < n" "n \<le> int (length cs)"
  shows "take (nat (n - 1)) (shift_cards cs i n)
           = take (nat i) cs @ drop (nat i + 1) (take (nat n) cs)"
proof (rule nth_equalityI)
  show "length (take (nat (n - 1)) (shift_cards cs i n))
          = length (take (nat i) cs @ drop (nat i + 1) (take (nat n) cs))"
    using assms by (simp add: length_shift_cards)
next
  fix j
  assume "j < length (take (nat (n - 1)) (shift_cards cs i n))"
  then have j: "int j < n - 1" using assms by (simp add: length_shift_cards)
  have "take (nat (n - 1)) (shift_cards cs i n) ! j = shift_cards cs i n ! j"
    using j by simp
  also have "\<dots> = (if nat i \<le> j then cs ! (j + 1) else cs ! j)"
    using j assms by (simp add: shift_cards_nth)
  also have "\<dots> = (take (nat i) cs @ drop (nat i + 1) (take (nat n) cs)) ! j"
    using j assms by (auto simp: nth_append)
  finally show "take (nat (n - 1)) (shift_cards cs i n) ! j
      = (take (nat i) cs @ drop (nat i + 1) (take (nat n) cs)) ! j" .
qed

lemma sum_list_map_update:
  fixes f :: "'a \<Rightarrow> int"
  shows "k < length ps \<Longrightarrow>
    sum_list (map f (ps[k := p'])) = sum_list (map f ps) - f (ps ! k) + f p'"
proof (induction ps arbitrary: k)
  case Nil
  then show ?case by simp
next
  case (Cons a ps)
  then show ?case by (cases k) auto
qed

lemma list_update_only:
  "length ps' = length ps \<Longrightarrow> (\<And>q. q \<noteq> k \<Longrightarrow> ps' ! q = ps ! q) \<Longrightarrow>
   ps' = ps[k := ps' ! k]"
proof (rule nth_equalityI)
  show "length ps' = length (ps[k := ps' ! k])" if "length ps' = length ps"
    using that by simp
next
  fix i
  assume "length ps' = length ps" "\<And>q. q \<noteq> k \<Longrightarrow> ps' ! q = ps ! q" "i < length ps'"
  then show "ps' ! i = ps[k := ps' ! k] ! i"
    by (cases "i = k") (simp_all add: nth_list_update)
qed

lemma sum_list_map_only:
  fixes f :: "'a \<Rightarrow> int"
  assumes "length ps' = length ps" "\<And>q. q \<noteq> k \<Longrightarrow> ps' ! q = ps ! q" "k < length ps"
  shows "sum_list (map f ps') = sum_list (map f ps) - f (ps ! k) + f (ps' ! k)"
proof -
  have "ps' = ps[k := ps' ! k]" using assms(1,2) by (rule list_update_only)
  then have "sum_list (map f ps') = sum_list (map f (ps[k := ps' ! k]))" by simp
  then show ?thesis using assms(3) by (simp add: sum_list_map_update)
qed


lemma took_tokens_changes:
  assumes "nat pid < length (Game.players g)" "length (Game.tokens g) = NUM_COLOURS"
    "length (Player.tokens (Game.players g ! nat pid)) = TOKEN_SLOTS"
  shows "length (Game.tokens (player_took_tokens g pid toks)) = NUM_COLOURS"
    and "numPlayers (player_took_tokens g pid toks) = numPlayers g"
    and "length (Game.players (player_took_tokens g pid toks)) = length (Game.players g)"
    and "\<And>q. q \<noteq> nat pid \<Longrightarrow> Game.players (player_took_tokens g pid toks) ! q = Game.players g ! q"
    and "length (Player.tokens (Game.players (player_took_tokens g pid toks) ! nat pid)) = TOKEN_SLOTS"
    and "Player.discounts (Game.players (player_took_tokens g pid toks) ! nat pid)
           = Player.discounts (Game.players g ! nat pid)"
    and "\<And>c. c < NUM_COLOURS \<Longrightarrow>
           Game.tokens (player_took_tokens g pid toks) ! c = Game.tokens g ! c - toks ! c"
    and "\<And>c. c < NUM_COLOURS \<Longrightarrow>
           Player.tokens (Game.players (player_took_tokens g pid toks) ! nat pid) ! c
             = Player.tokens (Game.players g ! nat pid) ! c + toks ! c"
    and "Player.tokens (Game.players (player_took_tokens g pid toks) ! nat pid) ! WILD
             = Player.tokens (Game.players g ! nat pid) ! WILD"
proof -
  note fr = took_from_frame[of g pid toks "[0..<NUM_COLOURS]"]
  note pf = took_from_player_frame[OF assms(1), of toks "[0..<NUM_COLOURS]"]
  show "length (Game.tokens (player_took_tokens g pid toks)) = NUM_COLOURS"
    using fr assms by (simp add: player_took_tokens_def)
  show "numPlayers (player_took_tokens g pid toks) = numPlayers g"
    using fr by (simp add: player_took_tokens_def)
  show "length (Game.players (player_took_tokens g pid toks)) = length (Game.players g)"
    using fr by (simp add: player_took_tokens_def)
  show "Game.players (player_took_tokens g pid toks) ! q = Game.players g ! q" if "q \<noteq> nat pid" for q
    using that by (simp add: player_took_tokens_def took_from_other)
  show "length (Player.tokens (Game.players (player_took_tokens g pid toks) ! nat pid)) = TOKEN_SLOTS"
    using pf assms by (simp add: player_took_tokens_def)
  show "Player.discounts (Game.players (player_took_tokens g pid toks) ! nat pid)
           = Player.discounts (Game.players g ! nat pid)"
    using pf by (simp add: player_took_tokens_def)
  show "Game.tokens (player_took_tokens g pid toks) ! c = Game.tokens g ! c - toks ! c"
    if "c < NUM_COLOURS" for c
    unfolding player_took_tokens_def using that assms
    by (subst took_from_board_tokens) auto
  show "Player.tokens (Game.players (player_took_tokens g pid toks) ! nat pid) ! c
             = Player.tokens (Game.players g ! nat pid) ! c + toks ! c"
    if "c < NUM_COLOURS" for c
    unfolding player_took_tokens_def using that assms
    by (subst took_from_player_tokens) (auto simp: NUM_COLOURS_def TOKEN_SLOTS_def)
  show "Player.tokens (Game.players (player_took_tokens g pid toks) ! nat pid) ! WILD
             = Player.tokens (Game.players g ! nat pid) ! WILD"
    unfolding player_took_tokens_def using assms
    by (subst took_from_player_tokens) (auto simp: NUM_COLOURS_def TOKEN_SLOTS_def WILD_def)
qed





subsection \<open>The effect of a purchase\<close>

text \<open>
  Claim C4. Applying a purchase of the face-up card \<open>cardId\<close> by the player
  \<open>pid\<close> with the spent tuple \<open>toks\<close>: \<open>cardsFacedUp\<close> drops by one and the
  face-up cards are the old ones without the card at \<open>cardId\<close>, in their old order;
  each of the four piles on the board grows by the spent count of its colour and there
  is no fifth pile for the wilds; each of the buyer's five token counts drops by the
  spent count; the buyer's discount of the card's colour grows by one and the buyer's
  points by the card's value; the number of players and every other player stay as
  they were.
\<close>

theorem player_purchased_card_effect:
  assumes pid: "0 \<le> pid" "nat pid < length (Game.players game)"
    and cid: "0 \<le> cardId" "cardId < cardsFacedUp game"
      "cardsFacedUp game \<le> int (length (cards game))"
    and wf: "length (Game.tokens game) = NUM_COLOURS"
      "length (Player.tokens (Game.players game ! nat pid)) = TOKEN_SLOTS"
      "length (Player.discounts (Game.players game ! nat pid)) = NUM_COLOURS"
    and col: "discount (cards game ! nat cardId) \<noteq> INVALID_COLOUR"
  shows
    "let g' = player_purchased_card game pid cardId toks;
         crd = cards game ! nat cardId;
         buyer = Game.players game ! nat pid;
         buyer' = Game.players g' ! nat pid;
         d = colour_index (discount crd)
     in cardsFacedUp g' = cardsFacedUp game - 1 \<and>
        take (nat (cardsFacedUp g')) (cards g')
          = take (nat cardId) (cards game)
            @ drop (nat cardId + 1) (take (nat (cardsFacedUp game)) (cards game)) \<and>
        length (Game.tokens g') = NUM_COLOURS \<and>
        (\<forall>c < NUM_COLOURS. Game.tokens g' ! c = Game.tokens game ! c + toks ! c) \<and>
        (\<forall>i < TOKEN_SLOTS. Player.tokens buyer' ! i = Player.tokens buyer ! i - toks ! i) \<and>
        d < NUM_COLOURS \<and>
        Player.discounts buyer' = (Player.discounts buyer)[d := Player.discounts buyer ! d + 1] \<and>
        totalPoints buyer' = totalPoints buyer + cardValue crd \<and>
        length (Game.players g') = length (Game.players game) \<and>
        (\<forall>q. q \<noteq> nat pid \<longrightarrow> Game.players g' ! q = Game.players game ! q)"
proof -
  let ?g1 = "take_card_from_board game cardId"
  let ?g2 = "pay_from ?g1 pid toks [0..<TOKEN_SLOTS]"
  let ?crd = "cards game ! nat cardId"
  let ?d = "colour_index (discount ?crd)"
  let ?p = "Game.players ?g2 ! nat pid"
  let ?g' = "player_purchased_card game pid cardId toks"
  have g': "?g' = ?g2\<lparr>Game.players := (Game.players ?g2)[nat pid :=
              ?p\<lparr>Player.discounts := (Player.discounts ?p)[?d := Player.discounts ?p ! ?d + 1],
                totalPoints := totalPoints ?p + cardValue ?crd\<rparr>]\<rparr>"
    by (simp add: player_purchased_card_def Let_def)
  have g1: "Game.players ?g1 = Game.players game" "Game.tokens ?g1 = Game.tokens game"
    "cardsFacedUp ?g1 = cardsFacedUp game - 1"
    "cards ?g1 = shift_cards (cards game) cardId (cardsFacedUp game)"
    by (simp_all add: take_card_from_board_def)
  have pin: "nat pid < length (Game.players ?g1)" using pid g1 by simp
  have pin2: "nat pid < length (Game.players ?g2)" using pin by (simp add: pay_from_frame)
  have faced: "cardsFacedUp ?g' = cardsFacedUp game - 1"
    unfolding g' by (simp add: pay_from_frame g1)
  have board: "take (nat (cardsFacedUp ?g')) (cards ?g')
          = take (nat cardId) (cards game)
            @ drop (nat cardId + 1) (take (nat (cardsFacedUp game)) (cards game))"
    unfolding faced unfolding g' using cid
    by (simp add: pay_from_frame g1 take_shift_cards)
  have lenpile: "length (Game.tokens ?g') = NUM_COLOURS"
    unfolding g' using wf by (simp add: pay_from_frame g1)
  have piles: "Game.tokens ?g' ! c = Game.tokens game ! c + toks ! c" if "c < NUM_COLOURS" for c
  proof -
    have "Game.tokens ?g' ! c = Game.tokens ?g2 ! c" unfolding g' by simp
    also have "\<dots> = Game.tokens game ! c + toks ! c"
      using that wf
      by (subst pay_from_board_tokens)
         (auto simp: g1 NUM_COLOURS_def TOKEN_SLOTS_def WILD_def)
    finally show ?thesis .
  qed
  have buyer_tokens: "Player.tokens (Game.players ?g' ! nat pid) ! i
      = Player.tokens (Game.players game ! nat pid) ! i - toks ! i" if "i < TOKEN_SLOTS" for i
  proof -
    have "Player.tokens (Game.players ?g' ! nat pid) ! i = Player.tokens ?p ! i"
      unfolding g' using pin2 by simp
    also have "\<dots> = Player.tokens (Game.players game ! nat pid) ! i - toks ! i"
      using that wf pin
      by (subst pay_from_player_tokens) (auto simp: g1)
    finally show ?thesis .
  qed
  have dlt: "?d < NUM_COLOURS"
    using col by (cases "discount ?crd") (simp_all add: NUM_COLOURS_def)
  have disc: "Player.discounts (Game.players ?g' ! nat pid)
      = (Player.discounts (Game.players game ! nat pid))
          [?d := Player.discounts (Game.players game ! nat pid) ! ?d + 1]"
    unfolding g' using pin2 pay_from_player_frame[OF pin, of toks "[0..<TOKEN_SLOTS]"]
    by (simp add: g1)
  have pts: "totalPoints (Game.players ?g' ! nat pid)
      = totalPoints (Game.players game ! nat pid) + cardValue ?crd"
    unfolding g' using pin2 pay_from_player_frame[OF pin, of toks "[0..<TOKEN_SLOTS]"]
    by (simp add: g1)
  have len: "length (Game.players ?g') = length (Game.players game)"
    unfolding g' by (simp add: pay_from_frame g1)
  have others: "Game.players ?g' ! q = Game.players game ! q" if "q \<noteq> nat pid" for q
    unfolding g' using that by (simp add: pay_from_other g1)
  show ?thesis
    unfolding Let_def
    using faced board lenpile piles buyer_tokens dlt disc pts len others by blast
qed

text \<open>Player 0 of \<open>sample_game\<close> buys card 0 (red, 2 points) with 0, 1, 0, 2, 2.\<close>

theorem player_purchased_card_effect_witness:
  "cardsFacedUp (player_purchased_card sample_game 0 0 [0, 1, 0, 2, 2]) = 2 \<and>
   take 2 (cards (player_purchased_card sample_game 0 0 [0, 1, 0, 2, 2]))
     = [\<lparr>discount = PURPLE, cardValue = 1, price = [0, 0, 1, 0]\<rparr>,
        \<lparr>discount = BROWN, cardValue = 4, price = [9, 0, 0, 0]\<rparr>] \<and>
   Game.tokens (player_purchased_card sample_game 0 0 [0, 1, 0, 2, 2]) ! 1 = 1 \<and>
   Game.tokens (player_purchased_card sample_game 0 0 [0, 1, 0, 2, 2]) ! 3 = 5 \<and>
   Player.tokens (Game.players (player_purchased_card sample_game 0 0 [0, 1, 0, 2, 2]) ! 0) ! 3 = 0 \<and>
   Player.tokens (Game.players (player_purchased_card sample_game 0 0 [0, 1, 0, 2, 2]) ! 0) ! 4 = 0 \<and>
   Player.discounts (Game.players (player_purchased_card sample_game 0 0 [0, 1, 0, 2, 2]) ! 0)
     = [1, 0, 0, 1] \<and>
   totalPoints (Game.players (player_purchased_card sample_game 0 0 [0, 1, 0, 2, 2]) ! 0) = 3 \<and>
   Game.players (player_purchased_card sample_game 0 0 [0, 1, 0, 2, 2]) ! 1
     = Game.players sample_game ! 1"
proof -
  have h: "(0::int) \<le> 0" "nat 0 < length (Game.players sample_game)"
    "(0::int) \<le> 0" "0 < cardsFacedUp sample_game"
    "cardsFacedUp sample_game \<le> int (length (cards sample_game))"
    "length (Game.tokens sample_game) = NUM_COLOURS"
    "length (Player.tokens (Game.players sample_game ! nat 0)) = TOKEN_SLOTS"
    "length (Player.discounts (Game.players sample_game ! nat 0)) = NUM_COLOURS"
    "discount (cards sample_game ! nat 0) \<noteq> INVALID_COLOUR"
    by (simp_all add: sample_game_def NUM_COLOURS_def TOKEN_SLOTS_def)
  have s: "cardsFacedUp sample_game = 3" "Game.tokens sample_game = [2, 0, 1, 3]"
    "cards sample_game =
       [\<lparr>discount = RED, cardValue = 2, price = [2, 1, 0, 3]\<rparr>,
        \<lparr>discount = PURPLE, cardValue = 1, price = [0, 0, 1, 0]\<rparr>,
        \<lparr>discount = BROWN, cardValue = 4, price = [9, 0, 0, 0]\<rparr>,
        \<lparr>discount = BROWN, cardValue = 0, price = [0, 0, 0, 0]\<rparr>,
        \<lparr>discount = BROWN, cardValue = 0, price = [0, 0, 0, 0]\<rparr>,
        \<lparr>discount = BROWN, cardValue = 0, price = [0, 0, 0, 0]\<rparr>,
        \<lparr>discount = BROWN, cardValue = 0, price = [0, 0, 0, 0]\<rparr>,
        \<lparr>discount = BROWN, cardValue = 0, price = [0, 0, 0, 0]\<rparr>]"
    "Game.players sample_game ! 0 = \<lparr>totalPoints = 1, Player.discounts = [1, 0, 0, 0],
                   Player.tokens = [0, 1, 1, 2, 2]\<rparr>"
    by (simp_all add: sample_game_def)
  note eff = player_purchased_card_effect[OF h, of "[0, 1, 0, 2, 2]", unfolded Let_def
      all_less_NUM_COLOURS all_less_TOKEN_SLOTS]
  show ?thesis
    using eff by (auto simp: s)
qed


subsection \<open>Token conservation\<close>

lemma wf_gameD:
  assumes "wf_game g" "0 \<le> pid" "pid < numPlayers g"
  shows "nat pid < length (Game.players g)" "length (Game.tokens g) = NUM_COLOURS"
    "length (Player.tokens (Game.players g ! nat pid)) = TOKEN_SLOTS"
    "length (Player.discounts (Game.players g ! nat pid)) = NUM_COLOURS"
proof -
  show a: "nat pid < length (Game.players g)" using assms by (simp add: wf_game_def)
  show "length (Game.tokens g) = NUM_COLOURS" using assms by (simp add: wf_game_def)
  show "length (Player.tokens (Game.players g ! nat pid)) = TOKEN_SLOTS"
    using assms(1) a by (simp add: wf_game_def list_all_length)
  show "length (Player.discounts (Game.players g ! nat pid)) = NUM_COLOURS"
    using assms(1) a by (simp add: wf_game_def list_all_length)
qed









lemma wild_total_took_tokens:
  assumes "wf_game g" "0 \<le> pid" "pid < numPlayers g"
  shows "wild_total (player_took_tokens g pid toks) = wild_total g"
proof -
  note d = wf_gameD[OF assms(1,2,3)]
  note ch = took_tokens_changes[OF d(1,2,3), where toks=toks]
  have "sum_list (map (\<lambda>p. Player.tokens p ! WILD) (Game.players (player_took_tokens g pid toks)))
      = sum_list (map (\<lambda>p. Player.tokens p ! WILD) (Game.players g))
        - Player.tokens (Game.players g ! nat pid) ! WILD
        + Player.tokens (Game.players (player_took_tokens g pid toks) ! nat pid) ! WILD"
    using ch(3) ch(4) d(1) by (rule sum_list_map_only)
  then show ?thesis
    using ch(9) by (simp add: wild_total_def)
qed









section \<open>Properties of the server's files\<close>

subsection \<open>Streams and the statfile\<close>

lemma read_line_content: "content (snd (snd (read_line f))) = content f"
  by (simp add: read_line_def Let_def)

lemma does_file_end_newline_fst:
  "fst (does_file_end_newline f) \<longleftrightarrow> content f \<noteq> [] \<and> last (content f) = newline"
proof (cases "content f = []")
  case True
  then show ?thesis
    by (simp add: does_file_end_newline_def Let_def fseek_end_def fseek_set_def ftell_def
        fgetc_def split: prod.splits)
next
  case False
  then have "nat (int (length (content f)) - 1) = length (content f) - 1"
    and "length (content f) - 1 < length (content f)"
    by simp_all
  with False show ?thesis
    by (simp add: does_file_end_newline_def Let_def fseek_end_def fseek_set_def ftell_def
        fgetc_def last_conv_nth split: prod.splits)
qed

lemma does_file_end_newline_snd:
  "snd (does_file_end_newline f) = f"
  by (auto simp: does_file_end_newline_def Let_def fseek_end_def fseek_set_def ftell_def
        fgetc_def split: prod.splits)

lemma load_entries_content:
  "load_entries f entries = (valid, f1, entries1) \<Longrightarrow> content f1 = content f"
proof (induction f entries arbitrary: valid f1 entries1 rule: load_entries.induct)
  case (1 f entries)
  obtain n line fa where rl: "read_line f = (n, line, fa)" by (cases "read_line f") auto
  then have ca: "content fa = content f" using read_line_content[of f] by simp
  obtain result vals where sc: "sscanf_4d line = (result, vals)"
    by (cases "sscanf_4d line") auto
  show ?case
  proof (cases "n \<le> 0")
    case True
    with "1.prems" rl ca show ?thesis by (subst (asm) load_entries.simps) auto
  next
    case False
    note pos = this
    show ?thesis
    proof (cases "result \<noteq> 4")
      case True
      with "1.prems" rl ca sc pos show ?thesis
        by (subst (asm) load_entries.simps) auto
    next
      case r4: False
      let ?entry = "\<lparr>port = vals ! 0, StatfileEntry.tokens = vals ! 1,
                         points = vals ! 2, StatfileEntry.players = vals ! 3\<rparr>"
      show ?thesis
      proof (cases "StatfileEntry.port ?entry < 0 \<or> StatfileEntry.port ?entry > MAX_PORT \<or>
                  StatfileEntry.tokens ?entry < MIN_START_TOKENS \<or>
                  StatfileEntry.points ?entry < MIN_WIN \<or>
                  StatfileEntry.players ?entry < MIN_PLAYERS \<or>
                  StatfileEntry.players ?entry > MAX_PLAYERS")
        case True
        with "1.prems" rl ca sc pos r4 show ?thesis
          by (subst (asm) load_entries.simps) (auto simp: Let_def)
      next
        case ok: False
        have step: "load_entries f entries = load_entries fa (entries @ [?entry])"
          using rl sc pos r4 ok by (subst load_entries.simps) (simp add: Let_def)
        have "content f1 = content fa"
          using "1.IH"[OF rl[symmetric] refl pos sc[symmetric] _ refl _ refl] r4 ok
            "1.prems" step
          by simp
        with ca show ?thesis by simp
      qed
    qed
  qed
qed

lemma load_statfile_result:
  assumes "fs filename = Some c"
  shows "fst (load_statfile fs entries filename)
           \<longleftrightarrow> fst (load_entries \<lparr>content = c, pos = 0\<rparr> entries)
               \<and> \<not> (c \<noteq> [] \<and> last c = newline)"
    and "snd (load_statfile fs entries filename)
           = snd (snd (load_entries \<lparr>content = c, pos = 0\<rparr> entries))"
proof -
  obtain valid f1 entries1
    where le: "load_entries \<lparr>content = c, pos = 0\<rparr> entries = (valid, f1, entries1)"
    by (cases "load_entries \<lparr>content = c, pos = 0\<rparr> entries") auto
  then have c1: "content f1 = c" using load_entries_content[OF le] by simp
  obtain e f2 where d: "does_file_end_newline f1 = (e, f2)"
    by (cases "does_file_end_newline f1") auto
  then have e: "e \<longleftrightarrow> c \<noteq> [] \<and> last c = newline"
    using does_file_end_newline_fst[of f1] c1 by simp
  show "fst (load_statfile fs entries filename)
           \<longleftrightarrow> fst (load_entries \<lparr>content = c, pos = 0\<rparr> entries)
               \<and> \<not> (c \<noteq> [] \<and> last c = newline)"
    using assms le d e by (simp add: load_statfile_def fopen_def)
  show "snd (load_statfile fs entries filename)
           = snd (snd (load_entries \<lparr>content = c, pos = 0\<rparr> entries))"
    using assms le d by (simp add: load_statfile_def fopen_def)
qed

lemma load_entries_empty:
  "load_entries \<lparr>content = [], pos = 0\<rparr> entries
     = (True, \<lparr>content = [], pos = 0\<rparr>, entries)"
  by (subst load_entries.simps) (simp add: read_line_def)

text \<open>
  Claim C7. A statfile whose last character is a newline does not load:
  \<open>load_statfile\<close> returns false whatever its lines hold, \<open>run_server\<close> returns
  \<open>BAD_STATFILE\<close>, and the server exits with status 4. So a statfile that loads is
  empty or ends in another character. The empty statfile loads, with no entry.
\<close>

theorem statfile_trailing_newline:
  "(fs filename = Some c \<and> c \<noteq> [] \<and> last c = newline \<longrightarrow>
      fst (load_statfile fs entries filename) = False \<and>
      run_server_load fs entries filename = Some BAD_STATFILE \<and>
      exit_status BAD_STATFILE = 4) \<and>
   (fst (load_statfile fs entries filename) \<longrightarrow>
      (\<exists>c'. fs filename = Some c' \<and> (c' = [] \<or> last c' \<noteq> newline))) \<and>
   (fs filename = Some [] \<longrightarrow> load_statfile fs [] filename = (True, []))"
proof (intro conjI impI)
  assume a: "fs filename = Some c \<and> c \<noteq> [] \<and> last c = newline"
  then show f: "fst (load_statfile fs entries filename) = False"
    using load_statfile_result(1)[where fs=fs and filename=filename and c=c and entries=entries]
    by simp
  then show "run_server_load fs entries filename = Some BAD_STATFILE"
    by (simp add: run_server_load_def)
next
  show "exit_status BAD_STATFILE = 4" by simp
next
  assume ok: "fst (load_statfile fs entries filename)"
  show "\<exists>c'. fs filename = Some c' \<and> (c' = [] \<or> last c' \<noteq> newline)"
  proof (cases "fs filename")
    case None
    with ok show ?thesis by (simp add: load_statfile_def fopen_def)
  next
    case (Some c')
    with ok load_statfile_result(1)[where fs=fs and filename=filename and c=c' and entries=entries]
    show ?thesis by auto
  qed
next
  assume e: "fs filename = Some []"
  have "fst (load_statfile fs [] filename)"
    using e load_statfile_result(1)[where fs=fs and filename=filename and c="[]" and entries="[]"]
    by (simp add: load_entries_empty)
  moreover have "snd (load_statfile fs [] filename) = []"
    using e load_statfile_result(2)[where fs=fs and filename=filename and c="[]" and entries="[]"]
    by (simp add: load_entries_empty)
  ultimately show "load_statfile fs [] filename = (True, [])"
    by (cases "load_statfile fs [] filename") simp
qed

lemma read_line_sample1:
  "read_line \<lparr>content = sample_statfile, pos = 0\<rparr>
     = (8, ''80,1,1,2'', \<lparr>content = sample_statfile, pos = 9\<rparr>)"
  by (simp add: read_line_def sample_statfile_def newline_def Let_def)

lemma read_line_sample2:
  "read_line \<lparr>content = sample_statfile, pos = 9\<rparr>
     = (8, ''80,3,5,4'', \<lparr>content = sample_statfile, pos = 17\<rparr>)"
  by (simp add: read_line_def sample_statfile_def newline_def Let_def)

lemma read_line_sample3:
  "read_line \<lparr>content = sample_statfile, pos = 17\<rparr>
     = (0, [], \<lparr>content = sample_statfile, pos = 17\<rparr>)"
  by (simp add: read_line_def sample_statfile_def newline_def Let_def)

lemma sscanf_sample1: "sscanf_4d ''80,1,1,2'' = (4, [80, 1, 1, 2])"
  by code_simp

lemma sscanf_sample2: "sscanf_4d ''80,3,5,4'' = (4, [80, 3, 5, 4])"
  by code_simp

lemma load_entries_step:
  assumes "read_line f = (n, line, f1)" "0 < n" "sscanf_4d line = (4, [p, t, w, k])"
    "0 \<le> p" "p \<le> MAX_PORT" "MIN_START_TOKENS \<le> t" "MIN_WIN \<le> w"
    "MIN_PLAYERS \<le> k" "k \<le> MAX_PLAYERS"
  shows "load_entries f entries
           = load_entries f1 (entries @ [\<lparr>port = p, StatfileEntry.tokens = t, points = w,
                                           StatfileEntry.players = k\<rparr>])"
  using assms by (subst load_entries.simps) (simp add: Let_def)

text \<open>
  Claim C10. The scan for a port already in the statfile rejects nothing: a line that
  reads as four integers within the bounds of an entry is appended to the entries,
  whether or not its port is there already. The statfile \<open>sample_statfile\<close>, two
  entries of port 80, loads, and both entries are recorded.
\<close>

theorem duplicate_ports_accepted:
  "(read_line f = (n, line, f1) \<and> 0 < n \<and> sscanf_4d line = (4, [p, t, w, k]) \<and>
    0 \<le> p \<and> p \<le> MAX_PORT \<and> MIN_START_TOKENS \<le> t \<and> MIN_WIN \<le> w \<and>
    MIN_PLAYERS \<le> k \<and> k \<le> MAX_PLAYERS \<longrightarrow>
      load_entries f entries
        = load_entries f1 (entries @ [\<lparr>port = p, StatfileEntry.tokens = t, points = w,
                                        StatfileEntry.players = k\<rparr>])) \<and>
   load_statfile (Map.empty(''statfile'' \<mapsto> sample_statfile)) [] ''statfile''
     = (True, [\<lparr>port = 80, StatfileEntry.tokens = 1, points = 1, StatfileEntry.players = 2\<rparr>,
               \<lparr>port = 80, StatfileEntry.tokens = 3, points = 5, StatfileEntry.players = 4\<rparr>])"
proof (intro conjI impI)
  assume "read_line f = (n, line, f1) \<and> 0 < n \<and> sscanf_4d line = (4, [p, t, w, k]) \<and>
    0 \<le> p \<and> p \<le> MAX_PORT \<and> MIN_START_TOKENS \<le> t \<and> MIN_WIN \<le> w \<and>
    MIN_PLAYERS \<le> k \<and> k \<le> MAX_PLAYERS"
  then show "load_entries f entries
        = load_entries f1 (entries @ [\<lparr>port = p, StatfileEntry.tokens = t, points = w,
                                        StatfileEntry.players = k\<rparr>])"
    using load_entries_step by blast
next
  let ?e1 = "\<lparr>port = 80, StatfileEntry.tokens = 1, points = 1, StatfileEntry.players = 2\<rparr>"
  let ?e2 = "\<lparr>port = 80, StatfileEntry.tokens = 3, points = 5, StatfileEntry.players = 4\<rparr>"
  have bounds: "(80::int) \<le> MAX_PORT" "MIN_START_TOKENS \<le> 1" "MIN_START_TOKENS \<le> 3"
    "MIN_WIN \<le> 1" "MIN_WIN \<le> 5" "MIN_PLAYERS \<le> 2" "MIN_PLAYERS \<le> 4"
    "2 \<le> MAX_PLAYERS" "4 \<le> MAX_PLAYERS"
    by (simp_all add: MAX_PORT_def MIN_START_TOKENS_def MIN_WIN_def MIN_PLAYERS_def
        MAX_PLAYERS_def)
  have "load_entries \<lparr>content = sample_statfile, pos = 0\<rparr> []
      = load_entries \<lparr>content = sample_statfile, pos = 9\<rparr> ([] @ [?e1])"
    using bounds by (intro load_entries_step[OF read_line_sample1 _ sscanf_sample1]) simp_all
  also have "\<dots> = load_entries \<lparr>content = sample_statfile, pos = 17\<rparr> (([] @ [?e1]) @ [?e2])"
    using bounds by (intro load_entries_step[OF read_line_sample2 _ sscanf_sample2]) simp_all
  also have "\<dots> = (True, \<lparr>content = sample_statfile, pos = 17\<rparr>, [?e1, ?e2])"
    by (subst load_entries.simps) (simp add: read_line_sample3)
  finally have le: "load_entries \<lparr>content = sample_statfile, pos = 0\<rparr> []
      = (True, \<lparr>content = sample_statfile, pos = 17\<rparr>, [?e1, ?e2])" .
  have nl: "\<not> (sample_statfile \<noteq> [] \<and> last sample_statfile = newline)"
    by (simp add: sample_statfile_def newline_def)
  have fs: "(Map.empty(''statfile'' \<mapsto> sample_statfile)) ''statfile'' = Some sample_statfile"
    by simp
  have "fst (load_statfile (Map.empty(''statfile'' \<mapsto> sample_statfile)) [] ''statfile'')"
    using load_statfile_result(1)[where fs="Map.empty(''statfile'' \<mapsto> sample_statfile)"
        and filename="''statfile''" and c=sample_statfile and entries="[]"] fs le nl
    by simp
  moreover
  have "snd (load_statfile (Map.empty(''statfile'' \<mapsto> sample_statfile)) [] ''statfile'')
      = [?e1, ?e2]"
    using load_statfile_result(2)[where fs="Map.empty(''statfile'' \<mapsto> sample_statfile)"
        and filename="''statfile''" and c=sample_statfile and entries="[]"] fs le
    by simp
  ultimately show "load_statfile (Map.empty(''statfile'' \<mapsto> sample_statfile)) [] ''statfile''
     = (True, [?e1, ?e2])"
    by (cases "load_statfile (Map.empty(''statfile'' \<mapsto> sample_statfile)) [] ''statfile''")
       simp
qed

text \<open>The second line of \<open>sample_statfile\<close>, read when the first entry of port 80
  is recorded: the scan stops at index 0, and the entry is appended.\<close>

theorem duplicate_ports_accepted_witness:
  "load_entries \<lparr>content = sample_statfile, pos = 9\<rparr>
       [\<lparr>port = 80, StatfileEntry.tokens = 1, points = 1, StatfileEntry.players = 2\<rparr>]
     = load_entries \<lparr>content = sample_statfile, pos = 17\<rparr>
         [\<lparr>port = 80, StatfileEntry.tokens = 1, points = 1, StatfileEntry.players = 2\<rparr>,
          \<lparr>port = 80, StatfileEntry.tokens = 3, points = 5, StatfileEntry.players = 4\<rparr>] \<and>
   port_scan [\<lparr>port = 80, StatfileEntry.tokens = 1, points = 1, StatfileEntry.players = 2\<rparr>]
       80 [0..<1] = 0"
proof -
  have h: "read_line \<lparr>content = sample_statfile, pos = 9\<rparr>
             = (8, ''80,3,5,4'', \<lparr>content = sample_statfile, pos = 17\<rparr>) \<and>
     (0::int) < 8 \<and> sscanf_4d ''80,3,5,4'' = (4, [80, 3, 5, 4]) \<and>
     (0::int) \<le> 80 \<and> 80 \<le> MAX_PORT \<and> MIN_START_TOKENS \<le> 3 \<and> MIN_WIN \<le> 5 \<and>
     MIN_PLAYERS \<le> 4 \<and> 4 \<le> MAX_PLAYERS"
    by (simp add: read_line_sample2 sscanf_sample2 MAX_PORT_def MIN_START_TOKENS_def
        MIN_WIN_def MIN_PLAYERS_def MAX_PLAYERS_def)
  show ?thesis
    using h duplicate_ports_accepted[THEN conjunct1, rule_format,
        where f="\<lparr>content = sample_statfile, pos = 9\<rparr>" and n=8 and line="''80,3,5,4''"
        and ?f1.0="\<lparr>content = sample_statfile, pos = 17\<rparr>"
        and p=80 and t=3 and w=5 and k=4
        and entries="[\<lparr>port = 80, StatfileEntry.tokens = 1, points = 1,
                          StatfileEntry.players = 2\<rparr>]"]
    by simp
qed

text \<open>The one-entry statfile \<open>80,1,1,2\<close> with a final newline, and the empty
  statfile.\<close>

theorem statfile_trailing_newline_witness:
  "fst (load_statfile (Map.empty(''statfile'' \<mapsto> ''80,1,1,2'' @ [newline])) [] ''statfile'')
     = False \<and>
   run_server_load (Map.empty(''statfile'' \<mapsto> ''80,1,1,2'' @ [newline])) [] ''statfile''
     = Some BAD_STATFILE \<and>
   load_statfile (Map.empty(''statfile'' \<mapsto> [])) [] ''statfile'' = (True, [])"
proof -
  have h1: "(Map.empty(''statfile'' \<mapsto> ''80,1,1,2'' @ [newline])) ''statfile''
              = Some (''80,1,1,2'' @ [newline]) \<and>
            ''80,1,1,2'' @ [newline] \<noteq> [] \<and> last (''80,1,1,2'' @ [newline]) = newline"
    by simp
  have h2: "(Map.empty(''statfile'' \<mapsto> [])) ''statfile'' = Some []"
    by simp
  show ?thesis
    using h1 h2
      statfile_trailing_newline[where fs="Map.empty(''statfile'' \<mapsto> ''80,1,1,2'' @ [newline])"
        and filename="''statfile''" and c="''80,1,1,2'' @ [newline]" and entries="[]"]
      statfile_trailing_newline[where fs="Map.empty(''statfile'' \<mapsto> [])"
        and filename="''statfile''" and c="[]" and entries="[]"]
    by simp
qed

subsection \<open>The keyfile\<close>

lemma fgetc_None: "fst (fgetc f) = None \<longleftrightarrow> length (content f) \<le> pos f"
  by (simp add: fgetc_def)

lemma takeWhile_all_length:
  "length (takeWhile P xs) = length xs \<longleftrightarrow> (\<forall>x\<in>set xs. P x)"
  by (induction xs) auto

text \<open>
  Claim C5, as the code has it. \<open>get_keyfile\<close> succeeds exactly on a file that holds
  at least one character and no newline at all, and the key is the whole content of the
  file. It fails on a missing file, on an empty file and on every file with a newline
  in it, a final one included.
\<close>

theorem get_keyfile_iff:
  "get_keyfile fs filename = Some key \<longleftrightarrow>
     fs filename = Some key \<and> key \<noteq> [] \<and> newline \<notin> set key"
proof (cases "fs filename")
  case None
  then show ?thesis by (simp add: get_keyfile_def fopen_def)
next
  case (Some c)
  let ?f = "\<lparr>content = c, pos = 0\<rparr>"
  let ?line = "takeWhile (\<lambda>x. x \<noteq> newline) c"
  let ?f1 = "?f\<lparr>pos := length ?line + (if length ?line < length c then 1 else 0)\<rparr>"
  have rl: "read_line ?f = (int (length ?line), ?line, ?f1)"
    by (simp add: read_line_def Let_def)
  obtain e f2 where d: "does_file_end_newline ?f1 = (e, f2)"
    by (cases "does_file_end_newline ?f1") auto
  have e: "e \<longleftrightarrow> c \<noteq> [] \<and> last c = newline"
    using does_file_end_newline_fst[of ?f1] d by simp
  have f2: "f2 = ?f1" using does_file_end_newline_snd[of ?f1] d by simp
  have le: "length ?line \<le> length c" by (rule length_takeWhile_le)
  have gk: "get_keyfile fs filename
      = (if ?line = [] then None
         else if \<not> e \<and> length c \<le> length ?line + (if length ?line < length c then 1 else 0)
              then Some ?line else None)"
    using Some rl d f2 by (simp add: get_keyfile_def fopen_def fgetc_None)
  show ?thesis
  proof (cases "newline \<in> set c")
    case False
    then have whole: "?line = c" by (auto simp: takeWhile_eq_all_conv)
    have "\<not> e" using e False by (cases c rule: rev_cases) auto
    with gk have "get_keyfile fs filename = (if c = [] then None else Some c)"
      unfolding whole by simp
    with Some False show ?thesis by auto
  next
    case True
    then have lt: "length ?line < length c"
      using le takeWhile_all_length[of "\<lambda>x. x \<noteq> newline" c] by fastforce
    have "get_keyfile fs filename = None"
    proof (cases "length c \<le> length ?line + 1")
      case short: True
      with lt have len: "length c = length ?line + 1" by simp
      let ?rest = "dropWhile (\<lambda>x. x \<noteq> newline) c"
      have split: "c = ?line @ ?rest" by simp
      have "length c = length ?line + length ?rest"
        by (subst split) (simp only: length_append)
      with len have l1: "length ?rest = 1" by simp
      have ne: "?rest \<noteq> []"
      proof
        assume "?rest = []"
        then have "length ?rest = 0" by (simp only: list.size)
        with l1 show False by simp
      qed
      from hd_dropWhile[OF ne] have "hd ?rest = newline" by simp
      with l1 have "?rest = [newline]" by (cases ?rest) auto
      with split have "c = ?line @ [newline]" by simp
      then have "last c = newline" by (metis last_snoc)
      with True e have e by auto
      then show ?thesis using gk by simp
    next
      case False
      then show ?thesis using gk lt by simp
    qed
    with True Some show ?thesis by auto
  qed
qed

text \<open>The keyfile \<open>secret\<close> with no newline.\<close>

theorem get_keyfile_iff_witness:
  "get_keyfile (Map.empty(''keyfile'' \<mapsto> ''secret'')) ''keyfile'' = Some ''secret''"
  using get_keyfile_iff[where fs="Map.empty(''keyfile'' \<mapsto> ''secret'')"
      and filename="''keyfile''" and key="''secret''"]
  by (simp add: newline_def)

text \<open>Claim C5 as stated fails: a keyfile of the one line \<open>secret\<close> ended by a
  newline is refused, and the server exits with \<open>BAD_KEYFILE\<close>.\<close>

theorem keyfile_trailing_newline_rejected:
  "get_keyfile (Map.empty(''keyfile'' \<mapsto> ''secret'' @ [newline])) ''keyfile'' = None \<and>
   main_load_keyfile (Map.empty(''keyfile'' \<mapsto> ''secret'' @ [newline])) ''keyfile''
     = Inl BAD_KEYFILE"
proof -
  have "get_keyfile (Map.empty(''keyfile'' \<mapsto> ''secret'' @ [newline])) ''keyfile'' = None"
    by (simp add: get_keyfile_def fopen_def read_line_def does_file_end_newline_def
        fseek_end_def fseek_set_def ftell_def fgetc_def Let_def newline_def)
  then show ?thesis by (simp add: main_load_keyfile_def)
qed


section \<open>Properties of the game loop\<close>

lemma player_turn_awaiting:
  "player_turn h0 pre = AwaitingMove h \<Longrightarrow>
   (h \<longleftrightarrow> h0 \<or> PROTOCOL_ERROR \<in> fst ` set pre) \<and>
   player_turn h0 (pre @ rest) = player_turn h rest"
proof (induction pre arbitrary: h0)
  case Nil
  then show ?case by simp
next
  case (Cons a pre)
  obtain err reconnected where a: "a = (err, reconnected)" by (cases a) auto
  show ?case
  proof (cases err)
    case NOTHING_WRONG
    with Cons.prems a show ?thesis by simp
  next
    case PROTOCOL_ERROR
    with Cons.prems a have "\<not> h0" and "player_turn True pre = AwaitingMove h"
      by (auto split: if_splits)
    with Cons.IH[of True] a PROTOCOL_ERROR show ?thesis by simp
  next
    case PLAYER_CLOSED
    with Cons.prems a have "reconnected" and "player_turn h0 pre = AwaitingMove h"
      by (auto split: if_splits)
    with Cons.IH[of h0] a PLAYER_CLOSED show ?thesis by auto
  qed
qed

text \<open>
  Claim C6, as the code has it. Let a turn have run through the answers \<open>pre\<close> and be
  about to prompt the player again, with \<open>hadAttempt = h\<close>; \<open>h\<close> says whether an
  invalid message is among \<open>pre\<close>. A disconnect followed by a reconnect in time leaves
  the turn waiting for a move with the same \<open>h\<close>. The next invalid message is a first
  strike, after which the loop prompts again, only when \<open>h\<close> is false; when the
  player had sent an invalid message before disconnecting, it stops the game with
  \<open>PROTOCOL_ERROR\<close>.
\<close>

theorem strike_survives_reconnect:
  assumes "player_turn False pre = AwaitingMove h"
  shows "(h \<longleftrightarrow> PROTOCOL_ERROR \<in> fst ` set pre) \<and>
         player_turn False (pre @ [(PLAYER_CLOSED, True)]) = AwaitingMove h \<and>
         player_turn False (pre @ [(PLAYER_CLOSED, True), (PROTOCOL_ERROR, r)])
           = (if h then GameStopped PROTOCOL_ERROR else AwaitingMove True)"
  using player_turn_awaiting[OF assms, of "[(PLAYER_CLOSED, True)]"]
    player_turn_awaiting[OF assms, of "[(PLAYER_CLOSED, True), (PROTOCOL_ERROR, r)]"]
  by simp

text \<open>A reconnect at the start of the turn, and a reconnect after one invalid
  message.\<close>

theorem strike_survives_reconnect_witness:
  "player_turn False [] = AwaitingMove False \<and>
   player_turn False ([] @ [(PLAYER_CLOSED, True), (PROTOCOL_ERROR, False)]) = AwaitingMove True \<and>
   player_turn False [(PROTOCOL_ERROR, False)] = AwaitingMove True \<and>
   player_turn False ([(PROTOCOL_ERROR, False)] @ [(PLAYER_CLOSED, True), (PROTOCOL_ERROR, False)])
     = GameStopped PROTOCOL_ERROR"
proof -
  have h1: "player_turn False [] = AwaitingMove False" by simp
  have h2: "player_turn False [(PROTOCOL_ERROR, False)] = AwaitingMove True" by simp
  show ?thesis
    using h1 h2 strike_survives_reconnect[OF h1, of False]
      strike_survives_reconnect[OF h2, of False]
    by (simp del: player_turn.simps)
qed

text \<open>Claim C6 as stated fails: player A sends an invalid message, disconnects,
  reconnects in time and sends an invalid message; the turn stops the game and the
  players are sent \<open>invalidA\<close>.\<close>

theorem second_invalid_after_reconnect_aborts:
  "player_turn False [(PROTOCOL_ERROR, False), (PLAYER_CLOSED, True), (PROTOCOL_ERROR, False)]
     = GameStopped PROTOCOL_ERROR \<and>
   end_message PROTOCOL_ERROR 1 = ''invalidA'' @ [newline]"
proof -
  have "player_letter 1 = CHR ''A''"
    unfolding player_letter_def by code_simp
  then show ?thesis
    by (simp add: end_message_def)
qed


section \<open>Properties of the lobby and the scoreboard\<close>

subsection \<open>Comparison and sorting\<close>

lemma strcmp_eq_0: "strcmp a b = 0 \<longleftrightarrow> a = b"
  by (induction a b rule: strcmp.induct) simp_all

lemma cmp_consistent_total:
  "cmp_consistent cmp S \<Longrightarrow> a \<in> S \<Longrightarrow> b \<in> S \<Longrightarrow> cmp a b \<le> 0 \<or> cmp b a \<le> 0"
  unfolding cmp_consistent_def by blast

lemma cmp_consistent_trans:
  "cmp_consistent cmp S \<Longrightarrow> a \<in> S \<Longrightarrow> b \<in> S \<Longrightarrow> c \<in> S \<Longrightarrow>
   cmp a b \<le> 0 \<Longrightarrow> cmp b c \<le> 0 \<Longrightarrow> cmp a c \<le> 0"
  unfolding cmp_consistent_def by blast

lemma cmp_consistent_subset:
  "cmp_consistent cmp S \<Longrightarrow> T \<subseteq> S \<Longrightarrow> cmp_consistent cmp T"
  unfolding cmp_consistent_def by blast

lemma mset_insert_by: "mset (insert_by cmp x ys) = add_mset x (mset ys)"
  by (induction ys) simp_all

lemma set_insert_by: "set (insert_by cmp x ys) = insert x (set ys)"
  by (induction ys) auto

lemma sorted_insert_by:
  assumes "cmp_consistent cmp (insert x (set ys))" "sorted_wrt (\<lambda>a b. cmp a b \<le> 0) ys"
  shows "sorted_wrt (\<lambda>a b. cmp a b \<le> 0) (insert_by cmp x ys)"
  using assms
proof (induction ys)
  case Nil
  then show ?case by simp
next
  case (Cons y ys)
  note cons = Cons.prems(1)
  have xin: "x \<in> insert x (set (y # ys))" and yin: "y \<in> insert x (set (y # ys))"
    by simp_all
  have sub: "cmp_consistent cmp (insert x (set ys))"
    using cons by (rule cmp_consistent_subset) auto
  from Cons.prems(2) have yz: "\<And>z. z \<in> set ys \<Longrightarrow> cmp y z \<le> 0"
    and sorted: "sorted_wrt (\<lambda>a b. cmp a b \<le> 0) ys"
    by simp_all
  show ?case
  proof (cases "cmp x y \<le> 0")
    case True
    have "cmp x z \<le> 0" if "z \<in> set ys" for z
    proof -
      have zin: "z \<in> insert x (set (y # ys))" using that by simp
      show ?thesis using cons xin yin zin True yz[OF that] by (rule cmp_consistent_trans)
    qed
    then show ?thesis using True Cons.prems(2) by simp
  next
    case False
    with cmp_consistent_total[OF cons xin yin] have yx: "cmp y x \<le> 0" by simp
    have "cmp y z \<le> 0" if "z \<in> set (insert_by cmp x ys)" for z
      using that yx yz unfolding set_insert_by by blast
    then show ?thesis
      using False Cons.IH[OF sub sorted] by simp
  qed
qed

lemma is_qsort_insertion_qsort: "is_qsort insertion_qsort"
  unfolding is_qsort_def
proof (intro allI impI)
  fix cmp :: "'a \<Rightarrow> 'a \<Rightarrow> int" and xs :: "'a list"
  assume "cmp_consistent cmp (set xs)"
  then show "mset (insertion_qsort cmp xs) = mset xs \<and>
        sorted_wrt (\<lambda>a b. cmp a b \<le> 0) (insertion_qsort cmp xs)"
  proof (induction xs)
    case Nil
    then show ?case by simp
  next
    case (Cons x xs)
    have sub: "cmp_consistent cmp (set xs)"
      using Cons.prems by (rule cmp_consistent_subset) auto
    from Cons.IH[OF sub] have m: "mset (insertion_qsort cmp xs) = mset xs"
      and s: "sorted_wrt (\<lambda>a b. cmp a b \<le> 0) (insertion_qsort cmp xs)"
      by simp_all
    have set: "set (insertion_qsort cmp xs) = set xs" using m by (rule mset_eq_setD)
    have "cmp_consistent cmp (insert x (set (insertion_qsort cmp xs)))"
      unfolding set using Cons.prems by simp
    from sorted_insert_by[OF this s] m show ?case
      by (simp add: mset_insert_by)
  qed
qed


subsection \<open>The scoreboard\<close>

lemma find_name_none:
  "\<forall>j\<in>set idxs. PlayerScore.name (scores ! j) \<noteq> n \<Longrightarrow> find_name scores n idxs np = np"
  by (induction idxs arbitrary: np) (simp_all add: strcmp_eq_0)

lemma find_name_some:
  "j \<in> set idxs \<Longrightarrow> PlayerScore.name (scores ! j) = n \<Longrightarrow>
   \<forall>j'\<in>set idxs. PlayerScore.name (scores ! j') = n \<longrightarrow> j' = j \<Longrightarrow>
   find_name scores n idxs np = int j"
proof (induction idxs arbitrary: np)
  case Nil
  then show ?case by simp
next
  case (Cons a idxs)
  have rest: "\<forall>j'\<in>set idxs. PlayerScore.name (scores ! j') = n \<longrightarrow> j' = j"
    using Cons.prems(3) by simp
  have step: "find_name scores n (a # idxs) np
      = find_name scores n idxs
          (if strcmp (PlayerScore.name (scores ! a)) n = 0 then int a else np)"
    by simp
  show ?case
  proof (cases "j \<in> set idxs")
    case True
    show ?thesis unfolding step by (rule Cons.IH[OF True Cons.prems(2) rest])
  next
    case False
    with Cons.prems(1) have aj: "a = j" by simp
    have "\<forall>j'\<in>set idxs. PlayerScore.name (scores ! j') \<noteq> n"
      using rest False by blast
    then have "find_name scores n idxs (int j) = int j" by (rule find_name_none)
    then show ?thesis
      unfolding step aj using Cons.prems(2) by (simp add: strcmp_eq_0)
  qed
qed

lemma count_tokens_five: "count_tokens (LibPlayer.tokens p) TOKEN_MAX = five_piles p"
proof -
  have u: "[0..<nat TOKEN_MAX] = [0, 1, 2, 3, 4]"
    by (simp add: TOKEN_MAX_def upt_conv_Cons)
  show ?thesis
    unfolding count_tokens_def u by (simp add: five_piles_def)
qed

lemma add_score_new:
  assumes "LibPlayer.name p \<notin> set (map PlayerScore.name scores)"
  shows "add_score scores p
     = scores @ [\<lparr>PlayerScore.name = LibPlayer.name p, PlayerScore.tokens = five_piles p,
                   PlayerScore.points = score p\<rparr>]"
proof -
  have "\<forall>j\<in>set [0..<length scores]. PlayerScore.name (scores ! j) \<noteq> LibPlayer.name p"
  proof
    fix j assume "j \<in> set [0..<length scores]"
    then have "scores ! j \<in> set scores" by simp
    then have "PlayerScore.name (scores ! j) \<in> set (map PlayerScore.name scores)"
      by simp
    with assms show "PlayerScore.name (scores ! j) \<noteq> LibPlayer.name p" by auto
  qed
  then have "find_name scores (LibPlayer.name p) [0..<length scores] (- 1) = - 1"
    by (rule find_name_none)
  then show ?thesis
    by (simp add: add_score_def Let_def count_tokens_five)
qed

lemma add_score_old:
  assumes "distinct (map PlayerScore.name scores)" "j < length scores"
    "PlayerScore.name (scores ! j) = LibPlayer.name p"
  shows "add_score scores p
     = scores[j := (scores ! j)\<lparr>PlayerScore.tokens := PlayerScore.tokens (scores ! j) + five_piles p,
                                PlayerScore.points := PlayerScore.points (scores ! j) + score p\<rparr>]"
proof -
  have uniq: "\<forall>j'\<in>set [0..<length scores].
      PlayerScore.name (scores ! j') = LibPlayer.name p \<longrightarrow> j' = j"
  proof (intro ballI impI)
    fix j' assume "j' \<in> set [0..<length scores]"
      and same: "PlayerScore.name (scores ! j') = LibPlayer.name p"
    then have lt: "j' < length (map PlayerScore.name scores)" by simp
    have lj: "j < length (map PlayerScore.name scores)" using assms(2) by simp
    have "map PlayerScore.name scores ! j' = map PlayerScore.name scores ! j"
      using lt lj same assms(3) by (simp only: nth_map length_map)
    then show "j' = j"
      using nth_eq_iff_index_eq[OF assms(1) lt lj] by blast
  qed
  have jin: "j \<in> set [0..<length scores]" using assms(2) by simp
  have found: "find_name scores (LibPlayer.name p) [0..<length scores] (- 1) = int j"
    using jin assms(3) uniq by (rule find_name_some)
  have keep: "(scores ! j)\<lparr>PlayerScore.name := LibPlayer.name p\<rparr> = scores ! j"
    unfolding assms(3)[symmetric] by simp
  have "add_score scores p
      = scores[j := (scores ! j)\<lparr>PlayerScore.name := LibPlayer.name p,
             PlayerScore.tokens := PlayerScore.tokens (scores ! j) + five_piles p,
             PlayerScore.points := PlayerScore.points (scores ! j) + score p\<rparr>]"
    unfolding add_score_def Let_def found count_tokens_five by simp
  also have "(scores ! j)\<lparr>PlayerScore.name := LibPlayer.name p,
             PlayerScore.tokens := PlayerScore.tokens (scores ! j) + five_piles p,
             PlayerScore.points := PlayerScore.points (scores ! j) + score p\<rparr>
      = (scores ! j)\<lparr>PlayerScore.tokens := PlayerScore.tokens (scores ! j) + five_piles p,
             PlayerScore.points := PlayerScore.points (scores ! j) + score p\<rparr>"
    using keep by (metis PlayerScore.update_convs(1))
  finally show ?thesis .
qed

lemma totals_of_add_score:
  assumes "totals_of ps scores"
  shows "totals_of (ps @ [p]) (add_score scores p)"
proof -
  let ?n = "LibPlayer.name p"
  let ?tok = "\<lambda>qs m. sum_list (map five_piles (filter (\<lambda>q. LibPlayer.name q = m) qs))"
  let ?pts = "\<lambda>qs m. sum_list (map score (filter (\<lambda>q. LibPlayer.name q = m) qs))"
  from assms have dist: "distinct (map PlayerScore.name scores)"
    and names: "set (map PlayerScore.name scores) = set (map LibPlayer.name ps)"
    and tot: "\<And>e. e \<in> set scores \<Longrightarrow>
        PlayerScore.tokens e = ?tok ps (PlayerScore.name e) \<and>
        PlayerScore.points e = ?pts ps (PlayerScore.name e)"
    unfolding totals_of_def by blast+
  have other: "?tok (ps @ [p]) m = ?tok ps m \<and> ?pts (ps @ [p]) m = ?pts ps m" if "m \<noteq> ?n" for m
    using that by auto
  have same: "?tok (ps @ [p]) ?n = ?tok ps ?n + five_piles p \<and>
              ?pts (ps @ [p]) ?n = ?pts ps ?n + score p"
    by simp
  show ?thesis
  proof (cases "?n \<in> set (map PlayerScore.name scores)")
    case False
    let ?e = "\<lparr>PlayerScore.name = ?n, PlayerScore.tokens = five_piles p,
                PlayerScore.points = score p\<rparr>"
    have eq: "add_score scores p = scores @ [?e]" using False by (rule add_score_new)
    have "?n \<notin> set (map LibPlayer.name ps)" using False names by simp
    then have "\<forall>q\<in>set ps. LibPlayer.name q \<noteq> ?n" by (metis image_eqI set_map)
    then have nops: "filter (\<lambda>q. LibPlayer.name q = ?n) ps = []"
      by (simp add: filter_empty_conv)
    have d': "distinct (map PlayerScore.name (scores @ [?e]))"
      using dist False by simp
    have n': "set (map PlayerScore.name (scores @ [?e])) = set (map LibPlayer.name (ps @ [p]))"
      using names by simp
    have t': "PlayerScore.tokens e = ?tok (ps @ [p]) (PlayerScore.name e) \<and>
              PlayerScore.points e = ?pts (ps @ [p]) (PlayerScore.name e)"
      if "e \<in> set (scores @ [?e])" for e
    proof (cases "e \<in> set scores")
      case True
      then have "PlayerScore.name e \<in> set (map PlayerScore.name scores)" by simp
      then have "PlayerScore.name e \<noteq> ?n" using False by metis
      with other[of "PlayerScore.name e"] tot[OF True] show ?thesis by simp
    next
      case notin: False
      with that have "e = ?e" by simp
      then show ?thesis using nops by simp
    qed
    show ?thesis unfolding eq totals_of_def using d' n' t' by blast
  next
    case True
    then obtain j where j: "j < length scores" "PlayerScore.name (scores ! j) = ?n"
      by (auto simp: in_set_conv_nth)
    let ?e = "(scores ! j)\<lparr>PlayerScore.tokens := PlayerScore.tokens (scores ! j) + five_piles p,
                                PlayerScore.points := PlayerScore.points (scores ! j) + score p\<rparr>"
    have eq: "add_score scores p = scores[j := ?e]" using dist j by (rule add_score_old)
    have mapn: "map PlayerScore.name (scores[j := ?e]) = map PlayerScore.name scores"
      using j by (simp add: map_update list_update_same_conv)
    have d': "distinct (map PlayerScore.name (scores[j := ?e]))"
      unfolding mapn by (rule dist)
    have "?n \<in> set (map LibPlayer.name ps)" using True names by simp
    then have n': "set (map PlayerScore.name (scores[j := ?e])) = set (map LibPlayer.name (ps @ [p]))"
      unfolding mapn using names by auto
    have t': "PlayerScore.tokens e = ?tok (ps @ [p]) (PlayerScore.name e) \<and>
              PlayerScore.points e = ?pts (ps @ [p]) (PlayerScore.name e)"
      if "e \<in> set (scores[j := ?e])" for e
    proof -
      from that obtain i where i: "i < length scores" "e = scores[j := ?e] ! i"
        by (auto simp: in_set_conv_nth)
      show ?thesis
      proof (cases "i = j")
        case True
        with i j have e: "e = ?e" by simp
        have "scores ! j \<in> set scores" using j by simp
        from tot[OF this] same j(2) show ?thesis unfolding e by simp
      next
        case False
        with i have e: "e = scores ! i" by simp
        have "map PlayerScore.name scores ! i \<noteq> map PlayerScore.name scores ! j"
          using dist i(1) j(1) False by (simp add: nth_eq_iff_index_eq del: nth_map)
        then have ne: "PlayerScore.name e \<noteq> ?n" using e i(1) j by simp
        have "e \<in> set scores" using e i(1) by simp
        from tot[OF this] other[OF ne] show ?thesis by simp
      qed
    qed
    show ?thesis unfolding eq totals_of_def using d' n' t' by blast
  qed
qed

lemma scores_of_players_foldl:
  "scores_of_players gps idxs scores
     = foldl add_score scores (map (\<lambda>i. state (gps ! i)) idxs)"
  by (induction idxs arbitrary: scores) simp_all

lemma scores_of_games_foldl:
  "\<forall>g\<in>set games. playerCount g = int (length (LibGame.players g)) \<Longrightarrow>
   scores_of_games games scores = foldl add_score scores (all_players games)"
proof (induction games arbitrary: scores)
  case Nil
  then show ?case by (simp add: all_players_def)
next
  case (Cons g games)
  have n: "nat (playerCount g) = length (LibGame.players g)" using Cons.prems by simp
  have "map (\<lambda>i. state (LibGame.players g ! i)) [0..<length (LibGame.players g)]
      = map state (LibGame.players g)"
    by (rule nth_equalityI) simp_all
  then have here: "scores_of_players (LibGame.players g) [0..<nat (playerCount g)] scores
      = foldl add_score scores (map state (LibGame.players g))"
    unfolding n scores_of_players_foldl by simp
  have rest: "\<forall>g\<in>set games. playerCount g = int (length (LibGame.players g))"
    using Cons.prems by simp
  show ?case
    using Cons.IH[OF rest] here by (simp add: all_players_def)
qed

lemma totals_of_foldl:
  "totals_of qs scores \<Longrightarrow> totals_of (qs @ ps) (foldl add_score scores ps)"
proof (induction ps arbitrary: qs scores)
  case Nil
  then show ?case by simp
next
  case (Cons p ps)
  have "totals_of (qs @ [p]) (add_score scores p)"
    using Cons.prems by (rule totals_of_add_score)
  from Cons.IH[OF this] show ?case by simp
qed

lemma totals_of_scores_of_games:
  assumes "\<forall>g\<in>set games. playerCount g = int (length (LibGame.players g))"
  shows "totals_of (all_players games) (scores_of_games games [])"
proof -
  have "totals_of [] []" by (simp add: totals_of_def)
  from totals_of_foldl[OF this, of "all_players games"] show ?thesis
    unfolding scores_of_games_foldl[OF assms] by simp
qed

lemma totals_of_mset:
  assumes "totals_of ps scores" "mset ys = mset scores"
  shows "totals_of ps ys"
proof -
  have s: "set ys = set scores" using assms(2) by (rule mset_eq_setD)
  have "mset (map PlayerScore.name ys) = mset (map PlayerScore.name scores)"
    using assms(2) by simp
  then have "distinct (map PlayerScore.name ys) = distinct (map PlayerScore.name scores)"
    by (rule mset_eq_imp_distinct_iff)
  then show ?thesis using assms(1) s unfolding totals_of_def by simp
qed

lemma score_sort_le:
  "score_sort a b \<le> 0 \<longleftrightarrow>
     PlayerScore.points b < PlayerScore.points a \<or>
     (PlayerScore.points a = PlayerScore.points b \<and> PlayerScore.tokens a \<le> PlayerScore.tokens b)"
  by (simp add: score_sort_def Let_def) arith

lemma score_sort_consistent: "cmp_consistent score_sort S"
  unfolding cmp_consistent_def score_sort_le by (intro conjI ballI impI) arith+

text \<open>
  Claim C8. For every list of games, past and present, each with \<open>playerCount\<close>
  players, and every \<open>qsort\<close> that sorts as the C standard promises: what
  \<open>print_scores\<close> writes is the header line followed by the lines of a table \<open>ys\<close>
  that has exactly one entry for each player name occurring in a game; the entry of a
  name holds the sum of the tokens in the five piles, and the sum of the scores, over
  the players of that name in all the games; and an entry stands before another only
  if it has more points, or as many points and at most as many tokens.
\<close>

theorem scoreboard:
  assumes "is_qsort qsort"
    and "\<forall>g\<in>set games. playerCount g = int (length (LibGame.players g))"
  shows "\<exists>ys. print_scores qsort games = scores_header @ concat (map score_line ys) \<and>
           distinct (map PlayerScore.name ys) \<and>
           set (map PlayerScore.name ys) = set (map LibPlayer.name (all_players games)) \<and>
           (\<forall>e\<in>set ys.
              PlayerScore.tokens e = total_tokens games (PlayerScore.name e) \<and>
              PlayerScore.points e = total_points games (PlayerScore.name e)) \<and>
           sorted_wrt (\<lambda>a b. PlayerScore.points b < PlayerScore.points a \<or>
                          (PlayerScore.points a = PlayerScore.points b \<and>
                           PlayerScore.tokens a \<le> PlayerScore.tokens b)) ys"
proof -
  let ?tbl = "scores_of_games games []"
  let ?ys = "qsort score_sort ?tbl"
  have "cmp_consistent score_sort (set ?tbl)" by (rule score_sort_consistent)
  with assms(1) have m: "mset ?ys = mset ?tbl"
    and s: "sorted_wrt (\<lambda>a b. score_sort a b \<le> 0) ?ys"
    unfolding is_qsort_def by blast+
  have "totals_of (all_players games) ?tbl"
    using assms(2) by (rule totals_of_scores_of_games)
  then have t: "totals_of (all_players games) ?ys" using m by (rule totals_of_mset)
  have out: "print_scores qsort games = scores_header @ concat (map score_line ?ys)"
    by (simp add: print_scores_def)
  from s have sorted: "sorted_wrt (\<lambda>a b. PlayerScore.points b < PlayerScore.points a \<or>
                          (PlayerScore.points a = PlayerScore.points b \<and>
                           PlayerScore.tokens a \<le> PlayerScore.tokens b)) ?ys"
    unfolding score_sort_le .
  from t have d: "distinct (map PlayerScore.name ?ys)"
    and n: "set (map PlayerScore.name ?ys) = set (map LibPlayer.name (all_players games))"
    and tot: "\<forall>e\<in>set ?ys.
              PlayerScore.tokens e = total_tokens games (PlayerScore.name e) \<and>
              PlayerScore.points e = total_points games (PlayerScore.name e)"
    unfolding totals_of_def total_tokens_def total_points_def by blast+
  from out d n tot sorted show ?thesis by blast
qed

text \<open>The two games of scenario 6 of the spec, sorted by insertion.\<close>

theorem scoreboard_witness:
  "(\<exists>ys. print_scores insertion_qsort sample_games
            = scores_header @ concat (map score_line ys) \<and>
         distinct (map PlayerScore.name ys) \<and>
         set (map PlayerScore.name ys) = set (map LibPlayer.name (all_players sample_games)) \<and>
         (\<forall>e\<in>set ys.
            PlayerScore.tokens e = total_tokens sample_games (PlayerScore.name e) \<and>
            PlayerScore.points e = total_points sample_games (PlayerScore.name e)) \<and>
         sorted_wrt (\<lambda>a b. PlayerScore.points b < PlayerScore.points a \<or>
                        (PlayerScore.points a = PlayerScore.points b \<and>
                         PlayerScore.tokens a \<le> PlayerScore.tokens b)) ys) \<and>
   print_scores insertion_qsort sample_games
     = ''Player Name,Total Tokens,Total Points'' @ [newline] @ ''alice,2,7'' @ [newline]
       @ ''carol,3,4'' @ [newline] @ ''bob,1,3'' @ [newline]"
proof
  have h: "\<forall>g\<in>set sample_games. playerCount g = int (length (LibGame.players g))"
    by (simp add: sample_games_def)
  show "\<exists>ys. print_scores insertion_qsort sample_games
            = scores_header @ concat (map score_line ys) \<and>
         distinct (map PlayerScore.name ys) \<and>
         set (map PlayerScore.name ys) = set (map LibPlayer.name (all_players sample_games)) \<and>
         (\<forall>e\<in>set ys.
            PlayerScore.tokens e = total_tokens sample_games (PlayerScore.name e) \<and>
            PlayerScore.points e = total_points sample_games (PlayerScore.name e)) \<and>
         sorted_wrt (\<lambda>a b. PlayerScore.points b < PlayerScore.points a \<or>
                        (PlayerScore.points a = PlayerScore.points b \<and>
                         PlayerScore.tokens a \<le> PlayerScore.tokens b)) ys"
    using is_qsort_insertion_qsort h by (rule scoreboard)
next
  show "print_scores insertion_qsort sample_games
     = ''Player Name,Total Tokens,Total Points'' @ [newline] @ ''alice,2,7'' @ [newline]
       @ ''carol,3,4'' @ [newline] @ ''bob,1,3'' @ [newline]"
    by code_simp
qed


end
